theory Spec2Isabelle
  imports Main "HOL-Library.Word"
begin

unbundle bit_operations_syntax

section \<open>The byte cursor of \<^verbatim>\<open>decoder.go\<close>\<close>

text \<open>
  The Go type \<^verbatim>\<open>Decoder\<close> holds the input \<^verbatim>\<open>data []byte\<close> and the read position
  \<^verbatim>\<open>pos int\<close>. Every method mutates the decoder through its pointer receiver; here each
  method takes the decoder and returns the decoder it leaves behind, on the error paths
  as well. Go's \<^verbatim>\<open>int\<close> is taken to be 64 bits wide (a 64-bit platform); \<^verbatim>\<open>pos\<close> only
  ever holds an offset into \<^verbatim>\<open>data\<close>, so it is a natural number, and every sum that can
  leave that range is wrapped explicitly (\<open>go_int\<close>).
\<close>

type_synonym byte = "8 word"

record Decoder =
  data :: "byte list"
  pos :: nat

definition NewDecoder :: "byte list \<Rightarrow> Decoder" where
  "NewDecoder bs = \<lparr>data = bs, pos = 0\<rparr>"

text \<open>
  Errors are the values the Go code builds with \<^verbatim>\<open>fmt.Errorf\<close> and \<^verbatim>\<open>errors.New\<close>:
  one constructor per format string, carrying the arguments of the format.
  \<open>ErrRequired n w r\<close> is \<^verbatim>\<open>"<n> required [<w>] bytes, remaining [<r>]"\<close>.
\<close>

datatype error =
    ErrVarIntBufferSize
  | ErrRequired string nat int
  | ErrByteArray "64 word" int
  | ErrReadBool error
  | ErrIsPresent error
  | ErrUnsupportedType

text \<open>
  A Go panic unwinds the whole decode; it is an outcome of its own, apart from returned
  errors. The constructors name the run-time panics this code can reach.
\<close>

datatype panic =
    PanicTypeOfZeroValue
  | PanicBinaryExtensionOrder string
  | PanicSizeof
  | PanicMakeSliceNegativeLen
  | PanicAllocationSize
  | PanicSliceBounds nat int

text \<open>
  A method either returns (its result, its error or \<^verbatim>\<open>nil\<close>, and the decoder as it
  leaves it) or panics.
\<close>

datatype 'a ret = Ret 'a "error option" Decoder | Panicked panic

definition remaining :: "Decoder \<Rightarrow> int" where
  "remaining d = int (length (data d)) - int (pos d)"

definition hasRemaining :: "Decoder \<Rightarrow> bool" where
  "hasRemaining d = (remaining d > 0)"

text \<open>Conversion of a wider or unsigned value to Go's 64-bit \<^verbatim>\<open>int\<close>: it wraps.\<close>

definition go_int :: "int \<Rightarrow> int" where
  "go_int n = sint (word_of_int n :: 64 word)"

subsection \<open>Standard library: \<^verbatim>\<open>encoding/binary\<close>\<close>

text \<open>
  \<^verbatim>\<open>binary.Uvarint\<close> returns the decoded value and the number of bytes read; the count is
  \<open>0\<close> when the buffer ends before a terminating byte and negative on a 64-bit
  overflow.
\<close>

definition MaxVarintLen64 :: nat where
  "MaxVarintLen64 = 10"

fun Uvarint_loop :: "byte list \<Rightarrow> nat \<Rightarrow> 64 word \<Rightarrow> nat \<Rightarrow> 64 word \<times> int" where
  "Uvarint_loop [] i x s = (0, 0)"
| "Uvarint_loop (b # buf) i x s =
     (if i = MaxVarintLen64 then (0, - (int i + 1))
      else if b < 0x80 then
        (if i = MaxVarintLen64 - 1 \<and> b > 1 then (0, - (int i + 1))
         else (x OR push_bit s (ucast b), int i + 1))
      else Uvarint_loop buf (i + 1) (x OR push_bit s (ucast (b AND 0x7f))) (s + 7))"

definition Uvarint :: "byte list \<Rightarrow> 64 word \<times> int" where
  "Uvarint buf = Uvarint_loop buf 0 0 0"

text \<open>
  \<^verbatim>\<open>binary.LittleEndian.UintN\<close> on a slice that holds at least the bytes it reads (the
  callers check \<open>remaining\<close> first).
\<close>

definition LittleEndian_Uint16 :: "byte list \<Rightarrow> 16 word" where
  "LittleEndian_Uint16 b = ucast (b ! 0) OR push_bit 8 (ucast (b ! 1))"

definition LittleEndian_Uint32 :: "byte list \<Rightarrow> 32 word" where
  "LittleEndian_Uint32 b =
     ucast (b ! 0) OR push_bit 8 (ucast (b ! 1)) OR push_bit 16 (ucast (b ! 2))
       OR push_bit 24 (ucast (b ! 3))"

definition LittleEndian_Uint64 :: "byte list \<Rightarrow> 64 word" where
  "LittleEndian_Uint64 b =
     ucast (b ! 0) OR push_bit 8 (ucast (b ! 1)) OR push_bit 16 (ucast (b ! 2))
       OR push_bit 24 (ucast (b ! 3)) OR push_bit 32 (ucast (b ! 4))
       OR push_bit 40 (ucast (b ! 5)) OR push_bit 48 (ucast (b ! 6))
       OR push_bit 56 (ucast (b ! 7))"

subsection \<open>Primitive readers\<close>

definition ReadUvarint64 :: "Decoder \<Rightarrow> 64 word ret" where
  "ReadUvarint64 d =
     (case Uvarint (drop (pos d) (data d)) of
        (l, read) \<Rightarrow>
          if read \<le> 0 then Ret l (Some ErrVarIntBufferSize) d
          else Ret l None (d\<lparr>pos := pos d + nat read\<rparr>))"

text \<open>
  \<^verbatim>\<open>ReadByteArray\<close>: the bound \<^verbatim>\<open>d.pos+int(l)\<close> is computed in \<^verbatim>\<open>int\<close>, so a length of
  \<open>2^63\<close> or more turns negative; the length check then passes and the slice expression
  \<^verbatim>\<open>d.data[d.pos : d.pos+int(l)]\<close> panics because its upper bound is below its lower one.
\<close>

definition ReadByteArray :: "Decoder \<Rightarrow> byte list ret" where
  "ReadByteArray d =
     (case ReadUvarint64 d of
        Panicked p \<Rightarrow> Panicked p
      | Ret l (Some err) d1 \<Rightarrow> Ret [] (Some err) d1
      | Ret l None d1 \<Rightarrow>
          (let hi = go_int (int (pos d1) + sint l) in
           if int (length (data d1)) < hi
           then Ret [] (Some (ErrByteArray l (go_int (hi - int (length (data d1)))))) d1
           else if hi < int (pos d1) then Panicked (PanicSliceBounds (pos d1) hi)
           else Ret (take (nat hi - pos d1) (drop (pos d1) (data d1))) None
                    (d1\<lparr>pos := nat hi\<rparr>)))"

definition ReadByte :: "Decoder \<Rightarrow> byte ret" where
  "ReadByte d =
     (if remaining d < 1 then Ret 0 (Some (ErrRequired [] 1 (remaining d))) d
      else Ret (data d ! pos d) None (d\<lparr>pos := pos d + 1\<rparr>))"

definition ReadBool :: "Decoder \<Rightarrow> bool ret" where
  "ReadBool d =
     (if remaining d < 1 then Ret False (Some (ErrRequired ''bool'' 1 (remaining d))) d
      else (case ReadByte d of
              Panicked p \<Rightarrow> Panicked p
            | Ret b err d1 \<Rightarrow> Ret (b \<noteq> 0) (map_option ErrReadBool err) d1))"

definition ReadUint8 :: "Decoder \<Rightarrow> byte ret" where
  "ReadUint8 d = ReadByte d"

definition ReadInt8 :: "Decoder \<Rightarrow> int ret" where
  "ReadInt8 d =
     (case ReadByte d of
        Panicked p \<Rightarrow> Panicked p
      | Ret b err d1 \<Rightarrow> Ret (sint b) err d1)"

definition ReadUint16 :: "Decoder \<Rightarrow> 16 word ret" where
  "ReadUint16 d =
     (if remaining d < 2 then Ret 0 (Some (ErrRequired ''uint16'' 2 (remaining d))) d
      else Ret (LittleEndian_Uint16 (drop (pos d) (data d))) None (d\<lparr>pos := pos d + 2\<rparr>))"

definition ReadInt16 :: "Decoder \<Rightarrow> int ret" where
  "ReadInt16 d =
     (case ReadUint16 d of
        Panicked p \<Rightarrow> Panicked p
      | Ret n err d1 \<Rightarrow> Ret (sint n) err d1)"

definition ReadUint32 :: "Decoder \<Rightarrow> 32 word ret" where
  "ReadUint32 d =
     (if remaining d < 4 then Ret 0 (Some (ErrRequired ''uint32'' 4 (remaining d))) d
      else Ret (LittleEndian_Uint32 (drop (pos d) (data d))) None (d\<lparr>pos := pos d + 4\<rparr>))"

definition ReadInt32 :: "Decoder \<Rightarrow> int ret" where
  "ReadInt32 d =
     (case ReadUint32 d of
        Panicked p \<Rightarrow> Panicked p
      | Ret n err d1 \<Rightarrow> Ret (sint n) err d1)"

definition ReadUint64 :: "Decoder \<Rightarrow> 64 word ret" where
  "ReadUint64 d =
     (if remaining d < 8 then Ret 0 (Some (ErrRequired ''uint64'' 8 (remaining d))) d
      else Ret (LittleEndian_Uint64 (take 8 (drop (pos d) (data d)))) None
               (d\<lparr>pos := pos d + 8\<rparr>))"

definition ReadInt64 :: "Decoder \<Rightarrow> int ret" where
  "ReadInt64 d =
     (case ReadUint64 d of
        Panicked p \<Rightarrow> Panicked p
      | Ret n err d1 \<Rightarrow> Ret (sint n) err d1)"

text \<open>
  The float readers return the IEEE-754 bit pattern they read:
  \<^verbatim>\<open>math.Float32frombits\<close> and \<^verbatim>\<open>math.Float64frombits\<close> only reinterpret it.
\<close>

definition ReadFloat32 :: "Decoder \<Rightarrow> 32 word ret" where
  "ReadFloat32 d =
     (if remaining d < 4 then Ret 0 (Some (ErrRequired ''float32'' 4 (remaining d))) d
      else Ret (LittleEndian_Uint32 (drop (pos d) (data d))) None (d\<lparr>pos := pos d + 4\<rparr>))"

definition ReadFloat64 :: "Decoder \<Rightarrow> 64 word ret" where
  "ReadFloat64 d =
     (if remaining d < 8 then Ret 0 (Some (ErrRequired ''float64'' 8 (remaining d))) d
      else Ret (LittleEndian_Uint64 (drop (pos d) (data d))) None (d\<lparr>pos := pos d + 8\<rparr>))"

text \<open>
  The conversion \<^verbatim>\<open>float64(n)\<close> of a \<^verbatim>\<open>float32\<close>, stored back into a \<^verbatim>\<open>float32\<close> by
  \<^verbatim>\<open>reflect.Value.SetFloat\<close>: both conversions are exact on numbers and infinities, and
  the first one turns a signalling NaN (exponent all ones, mantissa not zero with its top
  bit clear) into the quiet NaN with the same payload, as IEEE 754 has it.
\<close>

definition float32_via_float64 :: "32 word \<Rightarrow> 32 word" where
  "float32_via_float64 n =
     (if n AND 0x7F800000 = 0x7F800000 \<and> n AND 0x007FFFFF \<noteq> 0 then n OR 0x00400000
      else n)"

text \<open>\<^verbatim>\<open>ReadString\<close> converts the blob with \<^verbatim>\<open>string(data)\<close>: a Go string is its bytes.\<close>

definition ReadString :: "Decoder \<Rightarrow> byte list ret" where
  "ReadString d =
     (case ReadByteArray d of
        Panicked p \<Rightarrow> Panicked p
      | Ret bs err d1 \<Rightarrow> Ret bs err d1)"

subsection \<open>Standard library: \<^verbatim>\<open>unicode/utf8\<close> and \<^verbatim>\<open>strings.Map\<close>\<close>

text \<open>
  \<^verbatim>\<open>SafeReadUTF8String\<close> maps \<^verbatim>\<open>fixUtf\<close> over the string with \<^verbatim>\<open>strings.Map\<close>, which walks
  the string rune by rune as \<^verbatim>\<open>utf8.DecodeRuneInString\<close> decodes it. The decoder is
  modelled on the values of the bytes: the table \<^verbatim>\<open>first\<close> gives, for the leading byte,
  the size of the sequence in its low three bits and the index of the range accepted
  for the second byte in its high four; \<open>0xF0\<close> marks an ASCII byte and \<open>0xF1\<close> an
  invalid one. The masks, shifts and ors that assemble a rune from disjoint bit fields
  are written as remainders, products and sums. An ill-formed sequence decodes to
  \<open>(RuneError, 1)\<close>.
\<close>

definition RuneError :: int where
  "RuneError = 0xFFFD"

definition first :: "nat \<Rightarrow> nat" where
  "first b =
     (if b < 0x80 then 0xF0
      else if b < 0xC2 then 0xF1
      else if b < 0xE0 then 0x02
      else if b = 0xE0 then 0x13
      else if b < 0xED then 0x03
      else if b = 0xED then 0x23
      else if b < 0xF0 then 0x03
      else if b = 0xF0 then 0x34
      else if b < 0xF4 then 0x04
      else if b = 0xF4 then 0x44
      else 0xF1)"

definition acceptRanges :: "nat \<Rightarrow> nat \<times> nat" where
  "acceptRanges k =
     (if k = 0 then (0x80, 0xBF)
      else if k = 1 then (0xA0, 0xBF)
      else if k = 2 then (0x80, 0x9F)
      else if k = 3 then (0x90, 0xBF)
      else if k = 4 then (0x80, 0x8F)
      else (0, 0))"

definition DecodeRuneInString :: "byte list \<Rightarrow> int \<times> nat" where
  "DecodeRuneInString s =
     (let n = length s in
      if n < 1 then (RuneError, 0)
      else
        (let s0 = unat (s ! 0); x = first s0 in
         if x \<ge> 0xF0 then (if x = 0xF0 then int s0 else RuneError, 1)
         else
           (let sz = x mod 8; accept = acceptRanges (x div 16) in
            if n < sz then (RuneError, 1)
            else
              (let s1 = unat (s ! 1) in
               if s1 < fst accept \<or> snd accept < s1 then (RuneError, 1)
               else if sz \<le> 2 then (int (s0 mod 32 * 64 + s1 mod 64), 2)
               else
                 (let s2 = unat (s ! 2) in
                  if s2 < 0x80 \<or> 0xBF < s2 then (RuneError, 1)
                  else if sz \<le> 3
                  then (int (s0 mod 16 * 4096 + s1 mod 64 * 64 + s2 mod 64), 3)
                  else
                    (let s3 = unat (s ! 3) in
                     if s3 < 0x80 \<or> 0xBF < s3 then (RuneError, 1)
                     else (int (s0 mod 8 * 262144 + s1 mod 64 * 4096
                                  + s2 mod 64 * 64 + s3 mod 64), 4)))))))"

definition AppendRune :: "int \<Rightarrow> byte list" where
  "AppendRune r =
     (let i = r mod 2 ^ 32 in
      if i \<le> 0x7F then [word_of_int r]
      else if i \<le> 0x7FF then [word_of_int (0xC0 + r div 64), word_of_int (0x80 + r mod 64)]
      else
        (let r3 = (if i > 0x10FFFF \<or> (0xD800 \<le> i \<and> i \<le> 0xDFFF) then RuneError else r) in
         if i > 0x10FFFF \<or> (0xD800 \<le> i \<and> i \<le> 0xDFFF) \<or> i \<le> 0xFFFF
         then [word_of_int (0xE0 + r3 div 4096), word_of_int (0x80 + r3 div 64 mod 64),
               word_of_int (0x80 + r3 mod 64)]
         else [word_of_int (0xF0 + r div 262144), word_of_int (0x80 + r div 4096 mod 64),
               word_of_int (0x80 + r div 64 mod 64), word_of_int (0x80 + r mod 64)]))"

text \<open>
  The decoder by the class of the leading byte; \<open>cont\<close> is the range of a continuation
  byte, \<open>accept3\<close> and \<open>accept4\<close> are the ranges accepted for the second byte of a
  sequence of three and of four bytes.
\<close>

definition cont :: "nat \<Rightarrow> bool" where
  "cont b = (0x80 \<le> b \<and> b \<le> 0xBF)"

lemma first_simps:
  "b < 0x80 \<Longrightarrow> first b = 0xF0"
  "0x80 \<le> b \<Longrightarrow> b < 0xC2 \<Longrightarrow> first b = 0xF1"
  "0xC2 \<le> b \<Longrightarrow> b < 0xE0 \<Longrightarrow> first b = 0x02"
  "first 0xE0 = 0x13"
  "0xE1 \<le> b \<Longrightarrow> b < 0xED \<Longrightarrow> first b = 0x03"
  "first 0xED = 0x23"
  "0xEE \<le> b \<Longrightarrow> b < 0xF0 \<Longrightarrow> first b = 0x03"
  "first 0xF0 = 0x34"
  "0xF1 \<le> b \<Longrightarrow> b < 0xF4 \<Longrightarrow> first b = 0x04"
  "first 0xF4 = 0x44"
  "0xF4 < b \<Longrightarrow> first b = 0xF1"
  by (simp_all add: first_def)

lemma Decode_ascii:
  assumes "s \<noteq> []" and "unat (s ! 0) < 0x80"
  shows "DecodeRuneInString s = (int (unat (s ! 0)), 1)"
proof -
  have f: "first (unat (s ! 0)) = 0xF0" using assms by (simp add: first_simps)
  show ?thesis unfolding DecodeRuneInString_def Let_def f using assms by simp
qed

lemma Decode_bad_lead:
  assumes "s \<noteq> []" and "0x80 \<le> unat (s ! 0)" and "unat (s ! 0) < 0xC2 \<or> 0xF4 < unat (s ! 0)"
  shows "DecodeRuneInString s = (RuneError, 1)"
proof -
  have f: "first (unat (s ! 0)) = 0xF1" using assms by (auto simp: first_simps)
  show ?thesis unfolding DecodeRuneInString_def Let_def f using assms by simp
qed

lemma Decode_two:
  assumes "s \<noteq> []" and "0xC2 \<le> unat (s ! 0)" and "unat (s ! 0) < 0xE0"
  shows "DecodeRuneInString s =
     (if 2 \<le> length s \<and> cont (unat (s ! 1))
      then (int (unat (s ! 0) mod 32 * 64 + unat (s ! 1) mod 64), 2) else (RuneError, 1))"
proof -
  have f: "first (unat (s ! 0)) = 0x02" using assms by (simp add: first_simps)
  show ?thesis unfolding DecodeRuneInString_def Let_def f using assms
    by (auto simp: acceptRanges_def cont_def)
qed

lemma Decode_three_gen:
  assumes "s \<noteq> []" and f: "first (unat (s ! 0)) = x"
    and x: "x mod 8 = 3" "x < 0xF0" and a: "acceptRanges (x div 16) = (lo, hi)"
  shows "DecodeRuneInString s =
     (if 3 \<le> length s \<and> lo \<le> unat (s ! 1) \<and> unat (s ! 1) \<le> hi \<and> cont (unat (s ! 2))
      then (int (unat (s ! 0) mod 16 * 4096 + unat (s ! 1) mod 64 * 64 + unat (s ! 2) mod 64), 3)
      else (RuneError, 1))"
  unfolding DecodeRuneInString_def Let_def f x a using assms(1) x(2)
  by (auto simp: cont_def)

lemma Decode_four_gen:
  assumes "s \<noteq> []" and f: "first (unat (s ! 0)) = x"
    and x: "x mod 8 = 4" "x < 0xF0" and a: "acceptRanges (x div 16) = (lo, hi)"
  shows "DecodeRuneInString s =
     (if 4 \<le> length s \<and> lo \<le> unat (s ! 1) \<and> unat (s ! 1) \<le> hi \<and>
         cont (unat (s ! 2)) \<and> cont (unat (s ! 3))
      then (int (unat (s ! 0) mod 8 * 262144 + unat (s ! 1) mod 64 * 4096
                   + unat (s ! 2) mod 64 * 64 + unat (s ! 3) mod 64), 4)
      else (RuneError, 1))"
  unfolding DecodeRuneInString_def Let_def f x a using assms(1) x(2)
  by (auto simp: cont_def)


definition accept3 :: "nat \<Rightarrow> nat \<times> nat" where
  "accept3 b = (if b = 0xE0 then 0xA0 else 0x80, if b = 0xED then 0x9F else 0xBF)"

definition accept4 :: "nat \<Rightarrow> nat \<times> nat" where
  "accept4 b = (if b = 0xF0 then 0x90 else 0x80, if b = 0xF4 then 0x8F else 0xBF)"

lemma Decode_three:
  assumes "s \<noteq> []" and "0xE0 \<le> unat (s ! 0)" and "unat (s ! 0) < 0xF0"
  shows "DecodeRuneInString s =
     (if 3 \<le> length s \<and> fst (accept3 (unat (s ! 0))) \<le> unat (s ! 1) \<and>
         unat (s ! 1) \<le> snd (accept3 (unat (s ! 0))) \<and> cont (unat (s ! 2))
      then (int (unat (s ! 0) mod 16 * 4096 + unat (s ! 1) mod 64 * 64 + unat (s ! 2) mod 64), 3)
      else (RuneError, 1))"
proof -
  consider "unat (s ! 0) = 0xE0" | "0xE1 \<le> unat (s ! 0)" "unat (s ! 0) < 0xED"
    | "unat (s ! 0) = 0xED" | "0xEE \<le> unat (s ! 0)" "unat (s ! 0) < 0xF0"
    using assms(2,3) by linarith
  then show ?thesis
  proof cases
    case 1
    show ?thesis
      using Decode_three_gen [OF assms(1), of "0x13" "0xA0" "0xBF"] 1
      by (simp add: first_simps acceptRanges_def accept3_def)
  next
    case 2
    show ?thesis
      using Decode_three_gen [OF assms(1), of "0x03" "0x80" "0xBF"] 2
      by (simp add: first_simps acceptRanges_def accept3_def)
  next
    case 3
    show ?thesis
      using Decode_three_gen [OF assms(1), of "0x23" "0x80" "0x9F"] 3
      by (simp add: first_simps acceptRanges_def accept3_def)
  next
    case 4
    show ?thesis
      using Decode_three_gen [OF assms(1), of "0x03" "0x80" "0xBF"] 4
      by (simp add: first_simps acceptRanges_def accept3_def)
  qed
qed

lemma Decode_four:
  assumes "s \<noteq> []" and "0xF0 \<le> unat (s ! 0)" and "unat (s ! 0) \<le> 0xF4"
  shows "DecodeRuneInString s =
     (if 4 \<le> length s \<and> fst (accept4 (unat (s ! 0))) \<le> unat (s ! 1) \<and>
         unat (s ! 1) \<le> snd (accept4 (unat (s ! 0))) \<and>
         cont (unat (s ! 2)) \<and> cont (unat (s ! 3))
      then (int (unat (s ! 0) mod 8 * 262144 + unat (s ! 1) mod 64 * 4096
                   + unat (s ! 2) mod 64 * 64 + unat (s ! 3) mod 64), 4)
      else (RuneError, 1))"
proof -
  consider "unat (s ! 0) = 0xF0" | "0xF1 \<le> unat (s ! 0)" "unat (s ! 0) < 0xF4"
    | "unat (s ! 0) = 0xF4"
    using assms(2,3) by linarith
  then show ?thesis
  proof cases
    case 1
    show ?thesis
      using Decode_four_gen [OF assms(1), of "0x34" "0x90" "0xBF"] 1
      by (simp add: first_simps acceptRanges_def accept4_def)
  next
    case 2
    show ?thesis
      using Decode_four_gen [OF assms(1), of "0x04" "0x80" "0xBF"] 2
      by (simp add: first_simps acceptRanges_def accept4_def)
  next
    case 3
    show ?thesis
      using Decode_four_gen [OF assms(1), of "0x44" "0x80" "0x8F"] 3
      by (simp add: first_simps acceptRanges_def accept4_def)
  qed
qed

lemma Decode_cases [consumes 1, case_names ascii invalid two three four]:
  assumes "s \<noteq> []"
  obtains
    (ascii) "unat (s ! 0) < 0x80" "DecodeRuneInString s = (int (unat (s ! 0)), 1)"
  | (invalid) "DecodeRuneInString s = (RuneError, 1)"
  | (two) "0xC2 \<le> unat (s ! 0)" "unat (s ! 0) < 0xE0" "2 \<le> length s" "cont (unat (s ! 1))"
      "DecodeRuneInString s = (int (unat (s ! 0) mod 32 * 64 + unat (s ! 1) mod 64), 2)"
  | (three) "0xE0 \<le> unat (s ! 0)" "unat (s ! 0) < 0xF0" "3 \<le> length s"
      "fst (accept3 (unat (s ! 0))) \<le> unat (s ! 1)" "unat (s ! 1) \<le> snd (accept3 (unat (s ! 0)))"
      "cont (unat (s ! 2))"
      "DecodeRuneInString s =
        (int (unat (s ! 0) mod 16 * 4096 + unat (s ! 1) mod 64 * 64 + unat (s ! 2) mod 64), 3)"
  | (four) "0xF0 \<le> unat (s ! 0)" "unat (s ! 0) \<le> 0xF4" "4 \<le> length s"
      "fst (accept4 (unat (s ! 0))) \<le> unat (s ! 1)" "unat (s ! 1) \<le> snd (accept4 (unat (s ! 0)))"
      "cont (unat (s ! 2))" "cont (unat (s ! 3))"
      "DecodeRuneInString s =
        (int (unat (s ! 0) mod 8 * 262144 + unat (s ! 1) mod 64 * 4096
                + unat (s ! 2) mod 64 * 64 + unat (s ! 3) mod 64), 4)"
proof -
  consider "unat (s ! 0) < 0x80"
    | "0x80 \<le> unat (s ! 0)" "unat (s ! 0) < 0xC2 \<or> 0xF4 < unat (s ! 0)"
    | "0xC2 \<le> unat (s ! 0)" "unat (s ! 0) < 0xE0"
    | "0xE0 \<le> unat (s ! 0)" "unat (s ! 0) < 0xF0"
    | "0xF0 \<le> unat (s ! 0)" "unat (s ! 0) \<le> 0xF4"
    by linarith
  then show thesis
  proof cases
    case 1
    then show ?thesis using ascii Decode_ascii [OF assms] by blast
  next
    case 2
    then show ?thesis using invalid Decode_bad_lead [OF assms] by blast
  next
    case 3
    show ?thesis
      using two [OF 3] invalid Decode_two [OF assms 3] by (auto split: if_splits)
  next
    case 4
    show ?thesis
      using three [OF 4] invalid Decode_three [OF assms 4] by (auto split: if_splits)
  next
    case 5
    show ?thesis
      using four [OF 5] invalid Decode_four [OF assms 5] by (auto split: if_splits)
  qed
qed

lemma DecodeRuneInString_width:
  assumes "s \<noteq> []"
  shows "1 \<le> snd (DecodeRuneInString s) \<and> snd (DecodeRuneInString s) \<le> length s"
  using assms
proof (cases rule: Decode_cases)
  case ascii
  then show ?thesis using assms by (cases s) simp_all
next
  case invalid
  then show ?thesis using assms by (cases s) simp_all
qed simp_all

lemma drop_width_less:
  "s \<noteq> [] \<Longrightarrow> DecodeRuneInString s = (c, width) \<Longrightarrow> length (drop width s) < length s"
  using DecodeRuneInString_width [of s] by simp

text \<open>
  \<^verbatim>\<open>strings.Map\<close>. Until the first rune that the mapping changes, or that is an
  ill-formed byte, the bytes of the string are kept as they are (\<open>changed\<close> is false);
  from there on every rune \<open>r\<close> the mapping returns is written with
  \<^verbatim>\<open>utf8.AppendRune\<close>, unless it is negative.
\<close>

function strings_Map_loop :: "(int \<Rightarrow> int) \<Rightarrow> bool \<Rightarrow> byte list \<Rightarrow> byte list" where
  "strings_Map_loop mapping changed s =
     (if s = [] then []
      else
        (case DecodeRuneInString s of
           (c, width) \<Rightarrow>
             (let r = mapping c in
              if \<not> changed \<and> r = c \<and> (c \<noteq> RuneError \<or> width \<noteq> 1)
              then take width s @ strings_Map_loop mapping False (drop width s)
              else (if r \<ge> 0 then AppendRune r else [])
                     @ strings_Map_loop mapping True (drop width s))))"
  by pat_completeness auto
termination strings_Map_loop
  by (relation "measure (\<lambda>(mapping, changed, s). length s)")
    (auto dest: drop_width_less [OF _ sym])

declare strings_Map_loop.simps [simp del]

definition strings_Map :: "(int \<Rightarrow> int) \<Rightarrow> byte list \<Rightarrow> byte list" where
  "strings_Map mapping s = strings_Map_loop mapping False s"

text \<open>\<^verbatim>\<open>fixUtf\<close>: the rune literal in the source is U+FFFD, the value of \<^verbatim>\<open>utf8.RuneError\<close>.\<close>

definition fixUtf :: "int \<Rightarrow> int" where
  "fixUtf r = (if r = RuneError then 0xFFFD else r)"

definition SafeReadUTF8String :: "Decoder \<Rightarrow> byte list ret" where
  "SafeReadUTF8String d =
     (case ReadByteArray d of
        Panicked p \<Rightarrow> Panicked p
      | Ret bs err d1 \<Rightarrow> Ret (strings_Map fixUtf bs) err d1)"

text \<open>
  Well-formed UTF-8 (\<^verbatim>\<open>utf8.ValidString\<close>): no step of the decoder yields
  \<open>(RuneError, 1)\<close>.
\<close>

function ValidString :: "byte list \<Rightarrow> bool" where
  "ValidString s =
     (if s = [] then True
      else
        (case DecodeRuneInString s of
           (c, width) \<Rightarrow>
             if c = RuneError \<and> width = 1 then False else ValidString (drop width s)))"
  by pat_completeness auto
termination ValidString
  by (relation "measure length") (auto dest: drop_width_less [OF _ sym])

declare ValidString.simps [simp del]

text \<open>
  The spec's words for the lenient reader, as a function of their own: every byte that
  does not begin a well-formed sequence is replaced by the encoding of U+FFFD, and
  every well-formed sequence stays as it is.
\<close>

function replaceInvalid :: "byte list \<Rightarrow> byte list" where
  "replaceInvalid s =
     (if s = [] then []
      else
        (case DecodeRuneInString s of
           (c, width) \<Rightarrow>
             (if c = RuneError \<and> width = 1 then [0xEF, 0xBF, 0xBD] else take width s)
               @ replaceInvalid (drop width s)))"
  by pat_completeness auto
termination replaceInvalid
  by (relation "measure length") (auto dest: drop_width_less [OF _ sym])

declare replaceInvalid.simps [simp del]

section \<open>Target shapes, values and options\<close>

text \<open>
  The decoder is driven by \<^verbatim>\<open>reflect\<close>. \<open>rtype\<close> is the \<^verbatim>\<open>reflect.Type\<close> of the
  variable a pointer to which is handed to \<^verbatim>\<open>decodeWithOption\<close> (\<^verbatim>\<open>Decode(&x)\<close>,
  \<^verbatim>\<open>v.Addr().Interface()\<close>, \<^verbatim>\<open>rv.Index(i).Addr().Interface()\<close>); its constructors are
  the kinds of \<^verbatim>\<open>reflect\<close>, with the element type, the array length and the struct fields
  where the kind has them. \<open>GoInt\<close> and \<open>GoUint\<close> are the kinds \<^verbatim>\<open>reflect.Int\<close> and
  \<^verbatim>\<open>reflect.Uint\<close>. \<open>Other k\<close> stands for every kind \<open>k\<close> for which \<^verbatim>\<open>value\<close> has no case
  once \<^verbatim>\<open>indirect\<close> has run: maps, channels, functions, complex numbers, \<^verbatim>\<open>uintptr\<close>,
  \<^verbatim>\<open>unsafe.Pointer\<close>, a pointer to a non-pointer (where \<^verbatim>\<open>indirect\<close> stops because the
  pointer can be set) and an interface that holds no pointer to a pointer. Pointers to
  pointers, which \<^verbatim>\<open>indirect\<close> allocates and follows, are not part of the model.

  \<open>Unmarshaler u t\<close> is a type of shape \<open>t\<close> whose pointer type has the method
  \<^verbatim>\<open>UnmarshalBinary\<close>; \<open>u\<close> is that method: from the value of the receiver and the
  decoder to what it returns and leaves behind.

  \<open>val\<close> is the content of a variable. Integers are kept as numbers (\<^verbatim>\<open>reflect\<close> hands
  them over as \<^verbatim>\<open>uint64\<close> and \<^verbatim>\<open>int64\<close>), floats as their bit patterns, a string as its
  bytes. \<open>VOther n\<close> is a value of a kind under \<open>Other\<close>, \<open>VOther 0\<close> its zero value.
\<close>

text \<open>
  Modelled from the spec: the parsed field tag (\<^verbatim>\<open>parseFieldTag\<close> is not in the source
  file). The spec's Field Descriptor has \<open>skip\<close>, \<open>optional\<close>, \<open>is_extension_tail\<close> and
  \<open>size_source_for\<close>; the code reads them as \<^verbatim>\<open>Skip\<close>, \<^verbatim>\<open>Optional\<close>, \<^verbatim>\<open>BinaryExtension\<close>
  and \<^verbatim>\<open>Sizeof\<close> (the empty string when the field is no size source).
\<close>

record fieldTag =
  Skip :: bool
  BinaryExtension :: bool
  Optional :: bool
  Sizeof :: string

text \<open>
  Modelled from the spec: the Decode Option (\<^verbatim>\<open>Option\<close> and its methods are not in the
  source file): \<open>optional\<close>, read by the code as \<^verbatim>\<open>OptionalField\<close>, and the optional
  \<open>explicit_length\<close>, set by \<^verbatim>\<open>setSizeOfSlice\<close> and read by \<^verbatim>\<open>hasSizeOfSlice\<close> and
  \<^verbatim>\<open>getSizeOfSlice\<close>.
\<close>

record Option =
  OptionalField :: bool
  SizeOfSlice :: "int option"

definition isOptional :: "Option \<Rightarrow> bool" where
  "isOptional opt = OptionalField opt"

definition hasSizeOfSlice :: "Option \<Rightarrow> bool" where
  "hasSizeOfSlice opt = (SizeOfSlice opt \<noteq> None)"

definition getSizeOfSlice :: "Option \<Rightarrow> int" where
  "getSizeOfSlice opt = (case SizeOfSlice opt of Some s \<Rightarrow> s | None \<Rightarrow> 0)"

definition setSizeOfSlice :: "Option \<Rightarrow> int \<Rightarrow> Option" where
  "setSizeOfSlice opt s = opt\<lparr>SizeOfSlice := Some s\<rparr>"

datatype val =
    VString "byte list"
  | VUint nat
  | VInt int
  | VFloat32 "32 word"
  | VFloat64 "64 word"
  | VBool bool
  | VArray "val list"
  | VSlice "val list"
  | VNilSlice
  | VStruct "val list"
  | VOther nat

datatype kind =
    Uintptr | Complex64 | Complex128 | Chan | Func | Interface | Map | Pointer | UnsafePointer

datatype rtype =
    String | Uint8 | Int8 | Int16 | Int32 | Int64 | Uint16 | Uint32 | Uint64
  | Float32 | Float64 | Bool
  | GoInt | GoUint
  | Array nat rtype
  | Slice rtype
  | Struct "sfield list"
  | Other kind
  | Unmarshaler "val \<Rightarrow> Decoder \<Rightarrow> val ret" rtype
and sfield = StructField (Name: string) (Tag: fieldTag) (CanSet: bool) (Type: rtype)

text \<open>\<^verbatim>\<open>reflect.Zero\<close>: the zero value of a type.\<close>

primrec Zero :: "rtype \<Rightarrow> val" and Zero_field :: "sfield \<Rightarrow> val" where
  "Zero String = VString []"
| "Zero Uint8 = VUint 0"
| "Zero Int8 = VInt 0"
| "Zero Int16 = VInt 0"
| "Zero Int32 = VInt 0"
| "Zero Int64 = VInt 0"
| "Zero Uint16 = VUint 0"
| "Zero Uint32 = VUint 0"
| "Zero Uint64 = VUint 0"
| "Zero Float32 = VFloat32 0"
| "Zero Float64 = VFloat64 0"
| "Zero Bool = VBool False"
| "Zero GoInt = VInt 0"
| "Zero GoUint = VUint 0"
| "Zero (Array n t) = VArray (replicate n (Zero t))"
| "Zero (Slice t) = VNilSlice"
| "Zero (Struct fs) = VStruct (map Zero_field fs)"
| "Zero (Other k) = VOther 0"
| "Zero (Unmarshaler u t) = Zero t"
| "Zero_field (StructField n tg e t) = Zero t"

text \<open>
  The memory layout of a type as the Go compiler fixes it on a 64-bit platform: its
  size and its alignment in bytes (\<^verbatim>\<open>unsafe.Sizeof\<close>, \<^verbatim>\<open>unsafe.Alignof\<close>; the size is the
  field \<^verbatim>\<open>Size_\<close> of the run-time type). The fields of a struct are laid out in order,
  each at the next multiple of its alignment; a struct of nonzero size that ends in a
  field of size zero gets one more byte; the size is then rounded up to the alignment
  of the struct, which is the largest alignment among its fields.
\<close>

definition RoundUp :: "nat \<Rightarrow> nat \<Rightarrow> nat" where
  "RoundUp off r = ((off + r - 1) div r) * r"

fun calcStructOffset :: "(nat \<times> nat) list \<Rightarrow> nat \<Rightarrow> nat" where
  "calcStructOffset [] offset = offset"
| "calcStructOffset (f # fs) offset =
     calcStructOffset fs (RoundUp offset (snd f) + fst f)"

definition CalcStructSize :: "(nat \<times> nat) list \<Rightarrow> nat \<times> nat" where
  "CalcStructSize fs =
     (let size0 = calcStructOffset fs 0;
          size1 = (if 0 < size0 \<and> fst (last fs) = 0 then size0 + 1 else size0);
          maxAlign = fold (\<lambda>f m. max m (snd f)) fs 1
      in (RoundUp size1 maxAlign, maxAlign))"

primrec layout_kind :: "kind \<Rightarrow> nat \<times> nat" where
  "layout_kind Uintptr = (8, 8)"
| "layout_kind Complex64 = (8, 4)"
| "layout_kind Complex128 = (16, 8)"
| "layout_kind Chan = (8, 8)"
| "layout_kind Func = (8, 8)"
| "layout_kind Interface = (16, 8)"
| "layout_kind Map = (8, 8)"
| "layout_kind Pointer = (8, 8)"
| "layout_kind UnsafePointer = (8, 8)"

primrec layout :: "rtype \<Rightarrow> nat \<times> nat" and layout_field :: "sfield \<Rightarrow> nat \<times> nat" where
  "layout String = (16, 8)"
| "layout Uint8 = (1, 1)"
| "layout Int8 = (1, 1)"
| "layout Int16 = (2, 2)"
| "layout Int32 = (4, 4)"
| "layout Int64 = (8, 8)"
| "layout Uint16 = (2, 2)"
| "layout Uint32 = (4, 4)"
| "layout Uint64 = (8, 8)"
| "layout Float32 = (4, 4)"
| "layout Float64 = (8, 8)"
| "layout Bool = (1, 1)"
| "layout GoInt = (8, 8)"
| "layout GoUint = (8, 8)"
| "layout (Array n t) = (n * fst (layout t), snd (layout t))"
| "layout (Slice t) = (24, 8)"
| "layout (Struct fs) = CalcStructSize (map layout_field fs)"
| "layout (Other k) = layout_kind k"
| "layout (Unmarshaler u t) = layout t"
| "layout_field (StructField n tg e t) = layout t"

definition Size :: "rtype \<Rightarrow> nat" where
  "Size t = fst (layout t)"

text \<open>
  \<^verbatim>\<open>reflect.MakeSlice\<close> panics on a negative length and then allocates the elements with
  the run-time function \<^verbatim>\<open>newarray\<close>, which panics (\<^verbatim>\<open>allocation size out of range\<close>)
  when the count is not 1 and the size of the array, the size of the element times the
  count, overflows 64 bits or exceeds \<^verbatim>\<open>maxAlloc\<close>, \<open>2^48\<close> bytes on a 64-bit platform.
  An allocation that \<^verbatim>\<open>newarray\<close> admits is taken to succeed.
\<close>

definition maxAlloc :: int where
  "maxAlloc = 2 ^ 48"

definition newarray_panics :: "rtype \<Rightarrow> int \<Rightarrow> bool" where
  "newarray_panics typ n =
     (n \<noteq> 1 \<and>
      (let mem = int (Size typ) * n in 2 ^ 64 \<le> mem \<or> maxAlloc < mem \<or> n < 0))"

text \<open>The elements of an array or slice value, the fields of a struct value.\<close>

fun elems :: "val \<Rightarrow> val list" where
  "elems (VArray vs) = vs"
| "elems (VSlice vs) = vs"
| "elems (VStruct vs) = vs"
| "elems v = []"

section \<open>The type dispatcher and the record decoder\<close>

text \<open>
  A \<^verbatim>\<open>reflect.Value\<close> is the zero Value, which represents no value at all, or a value
  with its type. Of the zero Value only \<^verbatim>\<open>IsValid\<close>, \<^verbatim>\<open>Kind\<close> and \<^verbatim>\<open>String\<close> may be
  called; every other method panics (package \<^verbatim>\<open>reflect\<close>), \<^verbatim>\<open>Type\<close> among them.
\<close>

datatype rvalue = Invalid | Value rtype val

definition Type_of :: "rvalue \<Rightarrow> panic + rtype" where
  "Type_of rv = (case rv of Invalid \<Rightarrow> Inl PanicTypeOfZeroValue | Value t v \<Rightarrow> Inr t)"

text \<open>
  \<^verbatim>\<open>indirect\<close>, called on the pointer to a variable of type \<open>t\<close> that holds \<open>v\<close>. The
  pointer is not settable, so the loop goes on to the interface check: when the pointer
  type implements \<^verbatim>\<open>UnmarshalerBinary\<close> it returns the unmarshaler and
  \<^verbatim>\<open>reflect.Value{}\<close>; otherwise it steps to the variable, which is not of kind pointer
  (or is a settable pointer to a non-pointer), and returns \<^verbatim>\<open>nil\<close> and the variable.
\<close>

fun indirect :: "rtype \<Rightarrow> val \<Rightarrow> (Decoder \<Rightarrow> val ret) option \<times> rvalue" where
  "indirect (Unmarshaler u t) v = (Some (u v), Invalid)"
| "indirect t v = (None, Value t v)"

text \<open>
  \<^verbatim>\<open>sizeof\<close>: the signed kinds return \<^verbatim>\<open>int(v.Int())\<close> as it is, the unsigned kinds
  return \<^verbatim>\<open>int(v.Uint())\<close> unless that is negative, every other kind panics.
\<close>

definition sizeof_int :: "val \<Rightarrow> panic + int" where
  "sizeof_int v = (case v of VInt n \<Rightarrow> Inr (go_int n) | _ \<Rightarrow> Inl PanicSizeof)"

definition sizeof_uint :: "val \<Rightarrow> panic + int" where
  "sizeof_uint v =
     (case v of
        VUint u \<Rightarrow> (let n = go_int (int u) in if n < 0 then Inr 0 else Inr n)
      | _ \<Rightarrow> Inl PanicSizeof)"

primrec sizeof :: "rtype \<Rightarrow> val \<Rightarrow> panic + int" where
  "sizeof String v = Inl PanicSizeof"
| "sizeof Uint8 v = sizeof_uint v"
| "sizeof Int8 v = sizeof_int v"
| "sizeof Int16 v = sizeof_int v"
| "sizeof Int32 v = sizeof_int v"
| "sizeof Int64 v = sizeof_int v"
| "sizeof Uint16 v = sizeof_uint v"
| "sizeof Uint32 v = sizeof_uint v"
| "sizeof Uint64 v = sizeof_uint v"
| "sizeof Float32 v = Inl PanicSizeof"
| "sizeof Float64 v = Inl PanicSizeof"
| "sizeof Bool v = Inl PanicSizeof"
| "sizeof GoInt v = sizeof_int v"
| "sizeof GoUint v = sizeof_uint v"
| "sizeof (Array n t) v = Inl PanicSizeof"
| "sizeof (Slice t) v = Inl PanicSizeof"
| "sizeof (Struct fs) v = Inl PanicSizeof"
| "sizeof (Other k) v = Inl PanicSizeof"
| "sizeof (Unmarshaler u t) v = sizeof t v"

text \<open>
  The method \<^verbatim>\<open>value\<close> is \<open>decode_value\<close> below. Three of its parts that do not recurse
  are definitions of their own: the presence byte of an optional value (lines 109 to
  124), which either returns (\<open>Inl\<close>) or goes on with the decoder (\<open>Inr\<close>); the first
  \<^verbatim>\<open>switch\<close>, on the scalar kinds (lines 167 to 255), \<open>None\<close> when no case matches; and
  the element count of a slice (lines 271 to 280).
\<close>

definition value_optional :: "Option \<Rightarrow> rtype \<Rightarrow> val \<Rightarrow> Decoder \<Rightarrow> val ret + Decoder" where
  "value_optional option rvType rv d =
     (if isOptional option then
        (case ReadByte d of
           Panicked p \<Rightarrow> Inl (Panicked p)
         | Ret isPresent (Some e) d1 \<Rightarrow> Inl (Ret rv (Some (ErrIsPresent e)) d1)
         | Ret isPresent None d1 \<Rightarrow>
             if isPresent = 0 then Inl (Ret (Zero rvType) None d1) else Inr d1)
      else Inr d)"

definition value_scalar :: "rtype \<Rightarrow> val \<Rightarrow> Decoder \<Rightarrow> val ret option" where
  "value_scalar rvType rv d =
     (case rvType of
        String \<Rightarrow> Some (case ReadString d of
                          Panicked p \<Rightarrow> Panicked p
                        | Ret s (Some e) d1 \<Rightarrow> Ret rv (Some e) d1
                        | Ret s None d1 \<Rightarrow> Ret (VString s) None d1)
      | Uint8 \<Rightarrow> Some (case ReadByte d of
                         Panicked p \<Rightarrow> Panicked p
                       | Ret n err d1 \<Rightarrow> Ret (VUint (unat n)) err d1)
      | Int8 \<Rightarrow> Some (case ReadInt8 d of
                        Panicked p \<Rightarrow> Panicked p
                      | Ret n err d1 \<Rightarrow> Ret (VInt n) err d1)
      | Int16 \<Rightarrow> Some (case ReadInt16 d of
                         Panicked p \<Rightarrow> Panicked p
                       | Ret n err d1 \<Rightarrow> Ret (VInt n) err d1)
      | Int32 \<Rightarrow> Some (case ReadInt32 d of
                         Panicked p \<Rightarrow> Panicked p
                       | Ret n err d1 \<Rightarrow> Ret (VInt n) err d1)
      | Int64 \<Rightarrow> Some (case ReadInt64 d of
                         Panicked p \<Rightarrow> Panicked p
                       | Ret n err d1 \<Rightarrow> Ret (VInt n) err d1)
      | Uint16 \<Rightarrow> Some (case ReadUint16 d of
                          Panicked p \<Rightarrow> Panicked p
                        | Ret n err d1 \<Rightarrow> Ret (VUint (unat n)) err d1)
      | Uint32 \<Rightarrow> Some (case ReadUint32 d of
                          Panicked p \<Rightarrow> Panicked p
                        | Ret n err d1 \<Rightarrow> Ret (VUint (unat n)) err d1)
      | Uint64 \<Rightarrow> Some (case ReadUint64 d of
                          Panicked p \<Rightarrow> Panicked p
                        | Ret n err d1 \<Rightarrow> Ret (VUint (unat n)) err d1)
      | Float32 \<Rightarrow> Some (case ReadFloat32 d of
                           Panicked p \<Rightarrow> Panicked p
                         | Ret n err d1 \<Rightarrow> Ret (VFloat32 (float32_via_float64 n)) err d1)
      | Float64 \<Rightarrow> Some (case ReadFloat64 d of
                           Panicked p \<Rightarrow> Panicked p
                         | Ret n err d1 \<Rightarrow> Ret (VFloat64 n) err d1)
      | Bool \<Rightarrow> Some (case ReadBool d of
                        Panicked p \<Rightarrow> Panicked p
                      | Ret r err d1 \<Rightarrow> Ret (VBool r) err d1)
      | _ \<Rightarrow> None)"

definition value_slice_len :: "Option \<Rightarrow> val \<Rightarrow> Decoder \<Rightarrow> val ret + int \<times> Decoder" where
  "value_slice_len option rv d =
     (if hasSizeOfSlice option then Inr (getSizeOfSlice option, d)
      else (case ReadUvarint64 d of
              Panicked p \<Rightarrow> Inl (Panicked p)
            | Ret length64 (Some err) d1 \<Rightarrow> Inl (Ret rv (Some err) d1)
            | Ret length64 None d1 \<Rightarrow> Inr (sint length64, d1)))"

text \<open>
  \<open>decode_value t v opt d\<close> is \<^verbatim>\<open>d.value(rv, option)\<close> for \<^verbatim>\<open>rv\<close> the pointer to a variable
  of type \<open>t\<close> holding \<open>v\<close>; \<open>opt = None\<close> is the \<^verbatim>\<open>nil\<close> option. It returns the content of
  the variable afterwards, the error and the decoder, or it panics. \<open>value_elems\<close> is the
  \<^verbatim>\<open>for\<close> loop over the elements of an array (the same loop runs over the fresh slice
  once \<^verbatim>\<open>reflect.MakeSlice\<close> has returned it); \<open>decodeStruct_loop\<close> is the
  \<^verbatim>\<open>for\<close> loop of \<^verbatim>\<open>decodeStruct\<close> from field \<open>i\<close> on, with the fields still to visit, the
  \<^verbatim>\<open>sizeOfMap\<close> and \<^verbatim>\<open>seenBinaryExtensionField\<close>.
\<close>

function decode_value :: "rtype \<Rightarrow> val \<Rightarrow> Option option \<Rightarrow> Decoder \<Rightarrow> val ret"
  and decodeWithOption :: "rtype \<Rightarrow> val \<Rightarrow> Option option \<Rightarrow> Decoder \<Rightarrow> val ret"
  and value_elems :: "rtype \<Rightarrow> nat \<Rightarrow> nat \<Rightarrow> val list \<Rightarrow> Decoder \<Rightarrow> val list ret"
  and decodeStruct :: "sfield list \<Rightarrow> val list \<Rightarrow> Decoder \<Rightarrow> val list ret"
  and decodeStruct_loop ::
    "sfield list \<Rightarrow> nat \<Rightarrow> (string \<Rightarrow> int option) \<Rightarrow> bool \<Rightarrow> val list \<Rightarrow> Decoder
      \<Rightarrow> val list ret"
where
  "decode_value t v opt d =
     (let option = (case opt of
                      None \<Rightarrow> \<lparr>OptionalField = False, SizeOfSlice = None\<rparr>
                    | Some x \<Rightarrow> x) in
      case indirect t v of (unmarshaler, rv0) \<Rightarrow>
      (case Type_of rv0 of
         Inl p \<Rightarrow> Panicked p
       | Inr rvType \<Rightarrow>
          (let rv = (case rv0 of Invalid \<Rightarrow> v | Value t0 v0 \<Rightarrow> v0) in
           case value_optional option rvType rv d of
             Inl r \<Rightarrow> r
           | Inr d0 \<Rightarrow>
              (case unmarshaler of
                 Some u \<Rightarrow> u d0
               | None \<Rightarrow>
                  (case value_scalar rvType rv d0 of
                     Some r \<Rightarrow> r
                   | None \<Rightarrow>
                      (case rvType of
                         Array len et \<Rightarrow>
                           (case value_elems et 0 len (elems rv) d0 of
                              Panicked p \<Rightarrow> Panicked p
                            | Ret vs err d1 \<Rightarrow> Ret (VArray vs) err d1)
                       | Slice et \<Rightarrow>
                           (case value_slice_len option rv d0 of
                              Inl r \<Rightarrow> r
                            | Inr (l, d1) \<Rightarrow>
                                if l < 0 then Panicked PanicMakeSliceNegativeLen
                                else if newarray_panics et l
                                then Panicked PanicAllocationSize
                                else (case value_elems et 0 (nat l)
                                             (replicate (nat l) (Zero et)) d1 of
                                        Panicked p \<Rightarrow> Panicked p
                                      | Ret vs err d2 \<Rightarrow> Ret (VSlice vs) err d2))
                       | Struct fs \<Rightarrow>
                           (case decodeStruct fs (elems rv) d0 of
                              Panicked p \<Rightarrow> Panicked p
                            | Ret vs err d1 \<Rightarrow> Ret (VStruct vs) err d1)
                       | _ \<Rightarrow> Ret rv (Some ErrUnsupportedType) d0))))))"
| "decodeWithOption t v opt d = decode_value t v opt d"
| "value_elems et i len vs d =
     (if i < len then
        (case decodeWithOption et (vs ! i) None d of
           Panicked p \<Rightarrow> Panicked p
         | Ret v (Some err) d1 \<Rightarrow> Ret (vs[i := v]) (Some err) d1
         | Ret v None d1 \<Rightarrow> value_elems et (i + 1) len (vs[i := v]) d1)
      else Ret vs None d)"
| "decodeStruct fs vs d = decodeStruct_loop fs 0 Map.empty False vs d"
| "decodeStruct_loop [] i sizeOfMap seenBinaryExtensionField vs d = Ret vs None d"
| "decodeStruct_loop (structField # fs) i sizeOfMap seenBinaryExtensionField vs d =
     (let fieldTag = Tag structField in
      if Skip fieldTag
      then decodeStruct_loop fs (i + 1) sizeOfMap seenBinaryExtensionField vs d
      else if \<not> BinaryExtension fieldTag \<and> seenBinaryExtensionField
      then Panicked (PanicBinaryExtensionOrder (Name structField))
      else
        (let seen = (seenBinaryExtensionField \<or> BinaryExtension fieldTag) in
         if BinaryExtension fieldTag \<and> length (drop (pos d) (data d)) \<le> 0
         then decodeStruct_loop fs (i + 1) sizeOfMap seen vs d
         else if CanSet structField \<and> Name structField \<noteq> ''_'' then
           (let option0 = \<lparr>OptionalField = False, SizeOfSlice = None\<rparr>;
                option1 = (case sizeOfMap (Name structField) of
                             Some s \<Rightarrow> setSizeOfSlice option0 s
                           | None \<Rightarrow> option0);
                option = (if Optional fieldTag then option1\<lparr>OptionalField := True\<rparr>
                          else option1) in
            case decodeWithOption (Type structField) (vs ! i) (Some option) d of
              Panicked p \<Rightarrow> Panicked p
            | Ret v (Some err) d1 \<Rightarrow> Ret (vs[i := v]) (Some err) d1
            | Ret v None d1 \<Rightarrow>
                if Sizeof fieldTag \<noteq> [] then
                  (case sizeof (Type structField) v of
                     Inl p \<Rightarrow> Panicked p
                   | Inr sz \<Rightarrow>
                       decodeStruct_loop fs (i + 1) (sizeOfMap(Sizeof fieldTag \<mapsto> sz)) seen
                         (vs[i := v]) d1)
                else decodeStruct_loop fs (i + 1) sizeOfMap seen (vs[i := v]) d1)
         else decodeStruct_loop fs (i + 1) sizeOfMap seen vs d))"
  by pat_completeness auto

lemma indirect_Type_of: "indirect t v = (um, y) \<Longrightarrow> Type_of y = Inr t' \<Longrightarrow> t' = t"
  by (cases t) (auto simp: Type_of_def)

lemma size_Type_less: "size (Type f) < size f"
  by (cases f) simp

termination decode_value
proof (relation "inv_image (less_than <*lex*> less_than)
    (\<lambda>x. case x of
        Inl (Inl (t, v, opt, d)) \<Rightarrow> (3 * size t, 0)
      | Inl (Inr (t, v, opt, d)) \<Rightarrow> (3 * size t + 1, 0)
      | Inr (Inl (et, i, len, vs, d)) \<Rightarrow> (3 * size et + 2, len - i)
      | Inr (Inr (Inl (fs, vs, d))) \<Rightarrow> (3 * size_list size fs + 2, 0)
      | Inr (Inr (Inr (fs, i, m, seen, vs, d))) \<Rightarrow> (3 * size_list size fs + 1, 0))",
    goal_cases)
  case 1
  show ?case by (intro wf_inv_image wf_lex_prod wf_less_than)
next
  case (2 t v opt d x xa y b xb ba x151 x152)
  then have "t = Array x151 x152"
    using indirect_Type_of [of t v xa y "Array x151 x152"] by simp
  then show ?case by simp
next
  case (3 t v opt d x xa y b xb ba x16 bb xc ya)
  then have "t = Slice x16"
    using indirect_Type_of [of t v xa y "Slice x16"] by simp
  then show ?case by simp
next
  case (4 t v opt d x xa y b xb ba x17)
  then have "t = Struct x17"
    using indirect_Type_of [of t v xa y "Struct x17"] by simp
  then show ?case by simp
next
  case 5
  show ?case by simp
next
  case 6
  then show ?case by simp
next
  case 7
  then show ?case by simp
next
  case 8
  show ?case by simp
next
  case 9
  show ?case by simp
next
  case 10
  show ?case by simp
next
  case (11 structField)
  show ?case using size_Type_less [of structField] by simp
next
  case 12
  show ?case by simp
next
  case 13
  show ?case by simp
next
  case 14
  show ?case by simp
qed

declare decode_value.simps [simp del] value_elems.simps [simp del]

definition Decode :: "rtype \<Rightarrow> val \<Rightarrow> Decoder \<Rightarrow> val ret" where
  "Decode t v d = decodeWithOption t v None d"

section \<open>Predicates on target shapes\<close>

text \<open>
  The target's pointer type implements \<^verbatim>\<open>UnmarshalerBinary\<close>: the case in which
  \<^verbatim>\<open>indirect\<close> returns an unmarshaler.
\<close>

definition implementsUnmarshalerBinary :: "rtype \<Rightarrow> bool" where
  "implementsUnmarshalerBinary t = (case t of Unmarshaler u t' \<Rightarrow> True | _ \<Rightarrow> False)"

section \<open>The body of the field loop\<close>

text \<open>
  The body of the \<^verbatim>\<open>for\<close> loop of \<^verbatim>\<open>decodeStruct\<close> for one field, with the rest of the
  loop as the parameter \<open>k\<close>: the text of \<open>decodeStruct_loop\<close> with every call of the loop
  on the remaining fields replaced by \<open>k\<close> (lemma \<open>loop_Cons\<close> below).
\<close>

definition field_body ::
  "sfield \<Rightarrow> nat \<Rightarrow> (string \<Rightarrow> int option) \<Rightarrow> bool \<Rightarrow> val list \<Rightarrow> Decoder \<Rightarrow>
   ((string \<Rightarrow> int option) \<Rightarrow> bool \<Rightarrow> val list \<Rightarrow> Decoder \<Rightarrow> val list ret) \<Rightarrow> val list ret"
where
  "field_body structField i sizeOfMap seenBinaryExtensionField vs d k =
     (let fieldTag = Tag structField in
      if Skip fieldTag
      then k sizeOfMap seenBinaryExtensionField vs d
      else if \<not> BinaryExtension fieldTag \<and> seenBinaryExtensionField
      then Panicked (PanicBinaryExtensionOrder (Name structField))
      else
        (let seen = (seenBinaryExtensionField \<or> BinaryExtension fieldTag) in
         if BinaryExtension fieldTag \<and> length (drop (pos d) (data d)) \<le> 0
         then k sizeOfMap seen vs d
         else if CanSet structField \<and> Name structField \<noteq> ''_'' then
           (let option0 = \<lparr>OptionalField = False, SizeOfSlice = None\<rparr>;
                option1 = (case sizeOfMap (Name structField) of
                             Some s \<Rightarrow> setSizeOfSlice option0 s
                           | None \<Rightarrow> option0);
                option = (if Optional fieldTag then option1\<lparr>OptionalField := True\<rparr>
                          else option1) in
            case decodeWithOption (Type structField) (vs ! i) (Some option) d of
              Panicked p \<Rightarrow> Panicked p
            | Ret v (Some err) d1 \<Rightarrow> Ret (vs[i := v]) (Some err) d1
            | Ret v None d1 \<Rightarrow>
                if Sizeof fieldTag \<noteq> [] then
                  (case sizeof (Type structField) v of
                     Inl p \<Rightarrow> Panicked p
                   | Inr sz \<Rightarrow>
                       k (sizeOfMap(Sizeof fieldTag \<mapsto> sz)) seen (vs[i := v]) d1)
                else k sizeOfMap seen (vs[i := v]) d1)
         else k sizeOfMap seen vs d))"

text \<open>
  \<^verbatim>\<open>seenBinaryExtensionField\<close> once the loop has visited the fields \<open>pre\<close>: it was set
  before, or one of them carries the extension tag without the skip tag.
\<close>

definition seenAfter :: "bool \<Rightarrow> sfield list \<Rightarrow> bool" where
  "seenAfter seen pre =
     (seen \<or> list_ex (\<lambda>e. BinaryExtension (Tag e) \<and> \<not> Skip (Tag e)) pre)"

text \<open>
  What becomes of an outcome of the fields before field \<open>f\<close> when the loop then
  panics at \<open>f\<close>: a success turns into the panic, an error or a panic stays.
\<close>

definition abortAt :: "sfield \<Rightarrow> 'a ret \<Rightarrow> 'a ret" where
  "abortAt f r =
     (case r of
        Ret vs None d \<Rightarrow> Panicked (PanicBinaryExtensionOrder (Name f))
      | Ret vs (Some err) d \<Rightarrow> Ret vs (Some err) d
      | Panicked p \<Rightarrow> Panicked p)"

section \<open>Records whose extension fields are followed by skipped fields only\<close>

text \<open>
  \<open>skip_after_ext seen fs\<close>: in the field list \<open>fs\<close>, every field without the extension
  tag that comes after a field with it carries the skip tag (\<open>seen\<close>: a field with the
  extension tag came before \<open>fs\<close>). \<open>packed t\<close>: this holds of every record type in \<open>t\<close>
  that the decoder can reach, that is of \<open>t\<close> itself, of its elements and of its fields
  that are not skipped.
\<close>

fun skip_after_ext :: "bool \<Rightarrow> sfield list \<Rightarrow> bool" where
  "skip_after_ext seen [] = True"
| "skip_after_ext seen (f # fs) =
     (if BinaryExtension (Tag f) then skip_after_ext True fs
      else (seen \<longrightarrow> Skip (Tag f)) \<and> skip_after_ext seen fs)"

primrec packed :: "rtype \<Rightarrow> bool" and packed_field :: "sfield \<Rightarrow> bool" where
  "packed String = True"
| "packed Uint8 = True"
| "packed Int8 = True"
| "packed Int16 = True"
| "packed Int32 = True"
| "packed Int64 = True"
| "packed Uint16 = True"
| "packed Uint32 = True"
| "packed Uint64 = True"
| "packed Float32 = True"
| "packed Float64 = True"
| "packed Bool = True"
| "packed GoInt = True"
| "packed GoUint = True"
| "packed (Array n t) = packed t"
| "packed (Slice t) = packed t"
| "packed (Struct fs) = (skip_after_ext False fs \<and> list_all id (map packed_field fs))"
| "packed (Other k) = True"
| "packed (Unmarshaler u t) = True"
| "packed_field (StructField n tg e t) = (Skip tg \<or> packed t)"

section \<open>Scalar decodes on concrete bytes\<close>

text \<open>
  The fixed-width kinds are read least significant byte first; a signed kind reads the
  same bytes in two's complement; a \<^verbatim>\<open>float32\<close> keeps its bits, except that a signalling
  NaN comes out quiet; a boolean is true for every nonzero byte; a string is its length
  prefix and that many bytes.
\<close>

lemma Decode_Uint16_example:
  "Decode Uint16 (VUint 0) (NewDecoder [0x34, 0x12]) =
   Ret (VUint 0x1234) None \<lparr>data = [0x34, 0x12], pos = 2\<rparr>"
  by (simp add: Decode_def decode_value.simps Type_of_def NewDecoder_def value_optional_def
      isOptional_def value_scalar_def ReadUint16_def remaining_def LittleEndian_Uint16_def)

lemma Decode_Uint64_example:
  "Decode Uint64 (VUint 0) (NewDecoder [1, 2, 3, 4, 5, 6, 7, 8]) =
   Ret (VUint 0x0807060504030201) None \<lparr>data = [1, 2, 3, 4, 5, 6, 7, 8], pos = 8\<rparr>"
  by (simp add: Decode_def decode_value.simps Type_of_def NewDecoder_def value_optional_def
      isOptional_def value_scalar_def ReadUint64_def remaining_def LittleEndian_Uint64_def)

lemma Decode_Int32_example:
  "Decode Int32 (VInt 0) (NewDecoder [0xFE, 0xFF, 0xFF, 0xFF]) =
   Ret (VInt (- 2)) None \<lparr>data = [0xFE, 0xFF, 0xFF, 0xFF], pos = 4\<rparr>"
  by (simp add: Decode_def decode_value.simps Type_of_def NewDecoder_def value_optional_def
      isOptional_def value_scalar_def ReadInt32_def ReadUint32_def remaining_def
      LittleEndian_Uint32_def)

lemma Decode_Float32_example:
  "Decode Float32 (VFloat32 0) (NewDecoder [0x00, 0x00, 0x80, 0x3F]) =
   Ret (VFloat32 0x3F800000) None \<lparr>data = [0x00, 0x00, 0x80, 0x3F], pos = 4\<rparr>"
  by (simp add: Decode_def decode_value.simps Type_of_def NewDecoder_def value_optional_def
      isOptional_def value_scalar_def ReadFloat32_def remaining_def LittleEndian_Uint32_def
      float32_via_float64_def)

lemma Decode_Float32_signalling_NaN:
  "Decode Float32 (VFloat32 0) (NewDecoder [0x01, 0x00, 0x80, 0x7F]) =
   Ret (VFloat32 0x7FC00001) None \<lparr>data = [0x01, 0x00, 0x80, 0x7F], pos = 4\<rparr>"
  by (simp add: Decode_def decode_value.simps Type_of_def NewDecoder_def value_optional_def
      isOptional_def value_scalar_def ReadFloat32_def remaining_def LittleEndian_Uint32_def
      float32_via_float64_def)

lemma Decode_Bool_example:
  "Decode Bool (VBool False) (NewDecoder [0x02]) =
   Ret (VBool True) None \<lparr>data = [0x02], pos = 1\<rparr>"
  by code_simp

lemma Decode_String_example:
  "Decode String (VString []) (NewDecoder [0x02, 0x68, 0x69, 0x21]) =
   Ret (VString [0x68, 0x69]) None \<lparr>data = [0x02, 0x68, 0x69, 0x21], pos = 3\<rparr>"
  by code_simp

section \<open>Underrun of a fixed-width read\<close>

text \<open>
  Claim C8. Reading a \<^verbatim>\<open>uint64\<close> when only 3 bytes remain fails with the error
  \<^verbatim>\<open>"uint64 required [8] bytes, remaining [3]"\<close>, and the decoder (its position in
  particular) is the one before the call; so does decoding into a \<^verbatim>\<open>uint64\<close> variable,
  which is left holding 0.
\<close>

theorem ReadUint64_underrun:
  "remaining d = 3 \<Longrightarrow>
   ReadUint64 d = Ret 0 (Some (ErrRequired ''uint64'' 8 3)) d \<and>
   Decode Uint64 v d = Ret (VUint 0) (Some (ErrRequired ''uint64'' 8 3)) d"
  by (simp add: ReadUint64_def Decode_def decode_value.simps Type_of_def value_optional_def
      isOptional_def value_scalar_def)

theorem ReadUint64_underrun_witness:
  "remaining \<lparr>data = [1, 2, 3, 4, 5], pos = 2\<rparr> = 3 \<and>
   ReadUint64 \<lparr>data = [1, 2, 3, 4, 5], pos = 2\<rparr> =
     Ret 0 (Some (ErrRequired ''uint64'' 8 3)) \<lparr>data = [1, 2, 3, 4, 5], pos = 2\<rparr> \<and>
   Decode Uint64 (VUint 9) \<lparr>data = [1, 2, 3, 4, 5], pos = 2\<rparr> =
     Ret (VUint 0) (Some (ErrRequired ''uint64'' 8 3)) \<lparr>data = [1, 2, 3, 4, 5], pos = 2\<rparr>"
proof -
  have h: "remaining \<lparr>data = [1, 2, 3, 4, 5], pos = 2\<rparr> = 3"
    by (simp add: remaining_def)
  show ?thesis
    using h ReadUint64_underrun [OF h, of "VUint 9"] by simp
qed

section \<open>Size-linked fields\<close>

text \<open>
  Claim C1. The record \<^verbatim>\<open>[Count uint8 (size source of "Items"), Items []uint8]\<close> decoded
  from the bytes \<open>03 01 02 03\<close>: the decode succeeds with \<open>Count = 3\<close> and
  \<open>Items = [1, 2, 3]\<close> and leaves the position at 4, so no length prefix was read
  before the items.
\<close>

theorem sizeof_linked_fields:
  "Decode
     (Struct [StructField ''Count''
                \<lparr>Skip = False, BinaryExtension = False, Optional = False, Sizeof = ''Items''\<rparr>
                True Uint8,
              StructField ''Items''
                \<lparr>Skip = False, BinaryExtension = False, Optional = False, Sizeof = []\<rparr>
                True (Slice Uint8)])
     (VStruct [VUint 0, VNilSlice]) (NewDecoder [3, 1, 2, 3]) =
   Ret (VStruct [VUint 3, VSlice [VUint 1, VUint 2, VUint 3]]) None
     \<lparr>data = [3, 1, 2, 3], pos = 4\<rparr>"
  by code_simp

section \<open>Extension-tail fields\<close>

lemma or_push_bit_nat: "(a::nat) < 2 ^ n \<Longrightarrow> a OR push_bit n b = a + 2 ^ n * b"
proof -
  assume a: "a < 2 ^ n"
  have t: "take_bit n a = a"
    using a by (simp add: take_bit_nat_eq_self)
  have "\<not> bit a m" if "n \<le> m" for m
  proof
    assume "bit a m"
    then have "bit (take_bit n a) m" by (simp add: t)
    then show False using that by (simp add: bit_take_bit_iff)
  qed
  then have "a + push_bit n b = a OR push_bit n b"
    by (intro disjunctive_add) (auto simp: bit_push_bit_iff)
  then have "a OR push_bit n b = a + push_bit n b" by simp
  then show ?thesis by (simp only: push_bit_eq_mult mult.commute)
qed

lemma unat_byte_less: "unat (b :: byte) < 256"
  using unsigned_less [of b, where ?'a = nat] by simp

lemma LittleEndian_Uint32_bytes:
  "unat (LittleEndian_Uint32 [b0, b1, b2, b3]) =
     unat b0 + 256 * unat b1 + 65536 * unat b2 + 16777216 * unat b3"
proof -
  have b: "unat b0 < 256" "unat b1 < 256" "unat b2 < 256" "unat b3 < 256"
    by (rule unat_byte_less)+
  have u: "unat (ucast x :: 32 word) = unat x" for x :: byte
    by (simp add: unsigned_ucast_eq take_bit_nat_eq_self unat_byte_less [of x, THEN less_trans])
  have "unat (LittleEndian_Uint32 [b0, b1, b2, b3]) =
      unat b0 OR take_bit 32 (push_bit 8 (unat b1)) OR take_bit 32 (push_bit 16 (unat b2))
        OR take_bit 32 (push_bit 24 (unat b3))"
    by (simp add: LittleEndian_Uint32_def unsigned_or_eq unsigned_push_bit_eq u)
  also have "take_bit 32 (push_bit 8 (unat b1)) = push_bit 8 (unat b1)"
    using b(2) by (simp add: take_bit_nat_eq_self push_bit_eq_mult)
  also have "take_bit 32 (push_bit 16 (unat b2)) = push_bit 16 (unat b2)"
    using b(3) by (simp add: take_bit_nat_eq_self push_bit_eq_mult)
  also have "take_bit 32 (push_bit 24 (unat b3)) = push_bit 24 (unat b3)"
    using b(4) by (simp add: take_bit_nat_eq_self push_bit_eq_mult)
  also have "push_bit 16 (unat b2) OR push_bit 24 (unat b3) =
      push_bit 16 (unat b2 OR push_bit 8 (unat b3))"
    by (simp add: push_bit_or push_bit_push_bit)
  also have "push_bit 8 (unat b1) OR push_bit 16 (unat b2 OR push_bit 8 (unat b3)) =
      push_bit 8 (unat b1 OR push_bit 8 (unat b2 OR push_bit 8 (unat b3)))"
    by (simp add: push_bit_or push_bit_push_bit)
  finally show ?thesis
    using b by (simp add: or_push_bit_nat [where n = 8, simplified])
qed

text \<open>
  Claim C5. The record \<^verbatim>\<open>[A uint32, B uint32 (binary extension)]\<close> decoded from a buffer
  of exactly four bytes \<open>b0 b1 b2 b3\<close>, whatever they are: the decode succeeds, \<open>A\<close> is
  the little-endian number \<open>b0 + 2^8 b1 + 2^16 b2 + 2^24 b3\<close>, \<open>B\<close> keeps the value it
  had (its default), and the position is 4. On the bytes \<open>78 56 34 12\<close> with \<open>B\<close>
  holding 7 beforehand: \<open>A = 0x12345678\<close> and \<open>B = 7\<close>.
\<close>

theorem binary_extension_at_end_of_buffer:
  "Decode
     (Struct [StructField ''A''
                \<lparr>Skip = False, BinaryExtension = False, Optional = False, Sizeof = []\<rparr>
                True Uint32,
              StructField ''B''
                \<lparr>Skip = False, BinaryExtension = True, Optional = False, Sizeof = []\<rparr>
                True Uint32])
     (VStruct [va, vb]) (NewDecoder [b0, b1, b2, b3]) =
   Ret (VStruct [VUint (unat b0 + 256 * unat b1 + 65536 * unat b2 + 16777216 * unat b3), vb])
     None \<lparr>data = [b0, b1, b2, b3], pos = 4\<rparr> \<and>
   Decode
     (Struct [StructField ''A''
                \<lparr>Skip = False, BinaryExtension = False, Optional = False, Sizeof = []\<rparr>
                True Uint32,
              StructField ''B''
                \<lparr>Skip = False, BinaryExtension = True, Optional = False, Sizeof = []\<rparr>
                True Uint32])
     (VStruct [VUint 0, VUint 7]) (NewDecoder [0x78, 0x56, 0x34, 0x12]) =
   Ret (VStruct [VUint 0x12345678, VUint 7]) None
     \<lparr>data = [0x78, 0x56, 0x34, 0x12], pos = 4\<rparr>"
proof -
  have gen: "Decode
     (Struct [StructField ''A''
                \<lparr>Skip = False, BinaryExtension = False, Optional = False, Sizeof = []\<rparr>
                True Uint32,
              StructField ''B''
                \<lparr>Skip = False, BinaryExtension = True, Optional = False, Sizeof = []\<rparr>
                True Uint32])
     (VStruct [va, vb]) (NewDecoder [b0, b1, b2, b3]) =
   Ret (VStruct [VUint (unat b0 + 256 * unat b1 + 65536 * unat b2 + 16777216 * unat b3), vb])
     None \<lparr>data = [b0, b1, b2, b3], pos = 4\<rparr>" for va vb b0 b1 b2 b3
    unfolding LittleEndian_Uint32_bytes [symmetric]
    by (simp add: Decode_def decode_value.simps Type_of_def NewDecoder_def value_optional_def
        isOptional_def value_scalar_def ReadUint32_def remaining_def)
  show ?thesis
    using gen [of "VUint 0" "VUint 7" "0x78" "0x56" "0x34" "0x12"]
    by (simp add: gen)
qed

section \<open>Optional values\<close>

lemma indirect_plain:
  "\<not> implementsUnmarshalerBinary t \<Longrightarrow> indirect t v = (None, Value t v)"
  by (cases t) (simp_all add: implementsUnmarshalerBinary_def)

lemma value_slice_len_OptionalField:
  "value_slice_len (option\<lparr>OptionalField := b\<rparr>) rv d = value_slice_len option rv d"
  by (simp add: value_slice_len_def hasSizeOfSlice_def getSizeOfSlice_def)

text \<open>
  Claim C6. A decode with the optional flag set, of a target that goes through the
  generic dispatch (its type has no \<^verbatim>\<open>UnmarshalBinary\<close>), when a next byte exists: if
  that byte is 0 the target becomes the zero value of its type and the position moves
  by one; otherwise the outcome is that of the same decode without the optional flag,
  started one byte further, so the bytes consumed are one more than the value's own.
  The zero value at a presence byte of 0, for targets that held something else: the
  empty string, \<^verbatim>\<open>false\<close>, the number 0, the \<^verbatim>\<open>nil\<close> slice, the array of zeros, the record
  whose fields are all zero.
\<close>

theorem optional_presence_byte:
  assumes "\<not> implementsUnmarshalerBinary t" and "isOptional option" and "0 < remaining d"
  shows "decodeWithOption t v (Some option) d =
    (if data d ! pos d = 0 then Ret (Zero t) None (d\<lparr>pos := pos d + 1\<rparr>)
     else decodeWithOption t v (Some (option\<lparr>OptionalField := False\<rparr>))
            (d\<lparr>pos := pos d + 1\<rparr>)) \<and>
    decodeWithOption String
      (VString [0x61]) (Some \<lparr>OptionalField = True, SizeOfSlice = None\<rparr>)
      (NewDecoder [0, 7]) =
      Ret (VString []) None \<lparr>data = [0, 7], pos = 1\<rparr> \<and>
    decodeWithOption Bool
      (VBool True) (Some \<lparr>OptionalField = True, SizeOfSlice = None\<rparr>)
      (NewDecoder [0, 7]) =
      Ret (VBool False) None \<lparr>data = [0, 7], pos = 1\<rparr> \<and>
    decodeWithOption Int32
      (VInt 5) (Some \<lparr>OptionalField = True, SizeOfSlice = None\<rparr>)
      (NewDecoder [0, 7]) =
      Ret (VInt 0) None \<lparr>data = [0, 7], pos = 1\<rparr> \<and>
    decodeWithOption Float64
      (VFloat64 1) (Some \<lparr>OptionalField = True, SizeOfSlice = None\<rparr>)
      (NewDecoder [0, 7]) =
      Ret (VFloat64 0) None \<lparr>data = [0, 7], pos = 1\<rparr> \<and>
    decodeWithOption (Slice Uint8)
      (VSlice [VUint 1]) (Some \<lparr>OptionalField = True, SizeOfSlice = None\<rparr>)
      (NewDecoder [0, 7]) =
      Ret (VNilSlice) None \<lparr>data = [0, 7], pos = 1\<rparr> \<and>
    decodeWithOption (Array 2 Uint16)
      (VArray [VUint 1, VUint 2]) (Some \<lparr>OptionalField = True, SizeOfSlice = None\<rparr>)
      (NewDecoder [0, 7]) =
      Ret (VArray [VUint 0, VUint 0]) None \<lparr>data = [0, 7], pos = 1\<rparr> \<and>
    decodeWithOption (Struct [StructField ''N'' \<lparr>Skip = False, BinaryExtension = False, Optional = False, Sizeof = []\<rparr> True Uint8,
                StructField ''S'' \<lparr>Skip = False, BinaryExtension = False, Optional = False, Sizeof = []\<rparr> True String,
                StructField ''L'' \<lparr>Skip = False, BinaryExtension = False, Optional = False, Sizeof = []\<rparr> True (Slice Uint8)])
      (VStruct [VUint 1, VString [0x61], VSlice [VUint 1]]) (Some \<lparr>OptionalField = True, SizeOfSlice = None\<rparr>)
      (NewDecoder [0, 7]) =
      Ret (VStruct [VUint 0, VString [], VNilSlice]) None \<lparr>data = [0, 7], pos = 1\<rparr>"
proof -
  have rb: "ReadByte d = Ret (data d ! pos d) None (d\<lparr>pos := pos d + 1\<rparr>)"
    using assms(3) by (simp add: ReadByte_def)
  have opt: "value_optional option t v d =
      (if data d ! pos d = 0 then Inl (Ret (Zero t) None (d\<lparr>pos := pos d + 1\<rparr>))
       else Inr (d\<lparr>pos := pos d + 1\<rparr>))"
    using assms(2) rb by (simp add: value_optional_def)
  have nopt: "value_optional (option\<lparr>OptionalField := False\<rparr>) t v d' = Inr d'" for d'
    by (simp add: value_optional_def isOptional_def)
  have gen: "decodeWithOption t v (Some option) d =
    (if data d ! pos d = 0 then Ret (Zero t) None (d\<lparr>pos := pos d + 1\<rparr>)
     else decodeWithOption t v (Some (option\<lparr>OptionalField := False\<rparr>))
            (d\<lparr>pos := pos d + 1\<rparr>))"
    using assms(1) opt nopt
    by (simp add: decode_value.simps [of t v] indirect_plain Type_of_def
        value_slice_len_OptionalField cong: option.case_cong rtype.case_cong)
  have zeros:
    "decodeWithOption String
       (VString [0x61]) (Some \<lparr>OptionalField = True, SizeOfSlice = None\<rparr>)
       (NewDecoder [0, 7]) =
       Ret (VString []) None \<lparr>data = [0, 7], pos = 1\<rparr>"
    "decodeWithOption Bool
       (VBool True) (Some \<lparr>OptionalField = True, SizeOfSlice = None\<rparr>)
       (NewDecoder [0, 7]) =
       Ret (VBool False) None \<lparr>data = [0, 7], pos = 1\<rparr>"
    "decodeWithOption Int32
       (VInt 5) (Some \<lparr>OptionalField = True, SizeOfSlice = None\<rparr>)
       (NewDecoder [0, 7]) =
       Ret (VInt 0) None \<lparr>data = [0, 7], pos = 1\<rparr>"
    "decodeWithOption Float64
       (VFloat64 1) (Some \<lparr>OptionalField = True, SizeOfSlice = None\<rparr>)
       (NewDecoder [0, 7]) =
       Ret (VFloat64 0) None \<lparr>data = [0, 7], pos = 1\<rparr>"
    "decodeWithOption (Slice Uint8)
       (VSlice [VUint 1]) (Some \<lparr>OptionalField = True, SizeOfSlice = None\<rparr>)
       (NewDecoder [0, 7]) =
       Ret (VNilSlice) None \<lparr>data = [0, 7], pos = 1\<rparr>"
    "decodeWithOption (Array 2 Uint16)
       (VArray [VUint 1, VUint 2]) (Some \<lparr>OptionalField = True, SizeOfSlice = None\<rparr>)
       (NewDecoder [0, 7]) =
       Ret (VArray [VUint 0, VUint 0]) None \<lparr>data = [0, 7], pos = 1\<rparr>"
    "decodeWithOption (Struct [StructField ''N'' \<lparr>Skip = False, BinaryExtension = False, Optional = False, Sizeof = []\<rparr> True Uint8,
                StructField ''S'' \<lparr>Skip = False, BinaryExtension = False, Optional = False, Sizeof = []\<rparr> True String,
                StructField ''L'' \<lparr>Skip = False, BinaryExtension = False, Optional = False, Sizeof = []\<rparr> True (Slice Uint8)])
       (VStruct [VUint 1, VString [0x61], VSlice [VUint 1]]) (Some \<lparr>OptionalField = True, SizeOfSlice = None\<rparr>)
       (NewDecoder [0, 7]) =
       Ret (VStruct [VUint 0, VString [], VNilSlice]) None \<lparr>data = [0, 7], pos = 1\<rparr>"
    by code_simp+
  show ?thesis
    by (intro conjI gen zeros)
qed

theorem optional_presence_byte_witness:
  "\<not> implementsUnmarshalerBinary Uint16 \<and>
   \<not> implementsUnmarshalerBinary (Array 2 String) \<and>
   isOptional \<lparr>OptionalField = True, SizeOfSlice = None\<rparr> \<and>
   0 < remaining (NewDecoder [0, 7]) \<and> 0 < remaining (NewDecoder [1, 0x34, 0x12]) \<and>
   decodeWithOption Uint16 (VUint 9) (Some \<lparr>OptionalField = True, SizeOfSlice = None\<rparr>)
     (NewDecoder [0, 7]) = Ret (VUint 0) None \<lparr>data = [0, 7], pos = 1\<rparr> \<and>
   decodeWithOption Uint16 (VUint 9) (Some \<lparr>OptionalField = True, SizeOfSlice = None\<rparr>)
     (NewDecoder [1, 0x34, 0x12]) =
     Ret (VUint 0x1234) None \<lparr>data = [1, 0x34, 0x12], pos = 3\<rparr> \<and>
   decodeWithOption (Array 2 String) (VArray [VString [0x61], VString [0x62]])
     (Some \<lparr>OptionalField = True, SizeOfSlice = None\<rparr>) (NewDecoder [0, 7]) =
     Ret (VArray [VString [], VString []]) None \<lparr>data = [0, 7], pos = 1\<rparr>"
proof -
  have a: "\<not> implementsUnmarshalerBinary Uint16"
    and a': "\<not> implementsUnmarshalerBinary (Array 2 String)"
    by (simp_all add: implementsUnmarshalerBinary_def)
  have b: "isOptional \<lparr>OptionalField = True, SizeOfSlice = None\<rparr>"
    by (simp add: isOptional_def)
  have c: "0 < remaining (NewDecoder [0, 7])"
    and c': "0 < remaining (NewDecoder [1, 0x34, 0x12])"
    by (simp_all add: remaining_def NewDecoder_def)
  have rest:
    "decodeWithOption Uint16 (VUint 9) (Some \<lparr>OptionalField = False, SizeOfSlice = None\<rparr>)
       \<lparr>data = [1, 0x34, 0x12], pos = 1\<rparr> =
     Ret (VUint 0x1234) None \<lparr>data = [1, 0x34, 0x12], pos = 3\<rparr>"
    by code_simp
  have two: "replicate 2 x = [x, x]" for x :: val
    by (simp add: numeral_2_eq_2)
  show ?thesis
    using a a' b c c' rest
      optional_presence_byte [OF a b c, of "VUint 9", THEN conjunct1]
      optional_presence_byte [OF a b c', of "VUint 9", THEN conjunct1]
      optional_presence_byte [OF a' b c, of "VArray [VString [0x61], VString [0x62]]",
        THEN conjunct1]
    by (simp add: NewDecoder_def two)
qed


section \<open>The order of extension fields\<close>

lemma loop_Cons:
  "decodeStruct_loop (e # fs) i m seen vs d =
   field_body e i m seen vs d (decodeStruct_loop fs (i + 1))"
  unfolding field_body_def decodeStruct_loop.simps ..

lemma abortAt_simps [simp]:
  "abortAt f (Panicked p) = Panicked p"
  "abortAt f (Ret vs (Some err) d) = Ret vs (Some err) d"
  "abortAt f (Ret vs None d) = Panicked (PanicBinaryExtensionOrder (Name f))"
  by (simp_all add: abortAt_def)

lemma field_body_abortAt:
  assumes "\<And>m' vs' d'.
     k' m' (if Skip (Tag e) then seen else seen \<or> BinaryExtension (Tag e)) vs' d' =
     abortAt f (k m' (if Skip (Tag e) then seen else seen \<or> BinaryExtension (Tag e)) vs' d')"
  shows "field_body e i m seen vs d k' = abortAt f (field_body e i m seen vs d k)"
proof (cases "Skip (Tag e)")
  case True
  then show ?thesis using assms by (simp add: field_body_def)
next
  case False
  note distribs = if_distrib [of "abortAt f"] ret.case_distrib [of "abortAt f"]
        option.case_distrib [of "abortAt f"] sum.case_distrib [of "abortAt f"]
  show ?thesis
  proof (cases "BinaryExtension (Tag e)")
    case True
    with False assms have k: "\<And>m' vs' d'. k' m' True vs' d' = abortAt f (k m' True vs' d')"
      by simp
    show ?thesis
      unfolding field_body_def Let_def
      by (simp only: False True if_False if_True simp_thms k abortAt_simps distribs
          cong: if_cong ret.case_cong option.case_cong sum.case_cong)
  next
    case nb: False
    show ?thesis
    proof (cases seen)
      case True
      show ?thesis
        unfolding field_body_def Let_def
        by (simp only: False nb True if_False if_True simp_thms abortAt_simps)
    next
      case ns: False
      with False nb assms
      have k: "\<And>m' vs' d'. k' m' False vs' d' = abortAt f (k m' False vs' d')"
        by simp
      show ?thesis
        unfolding field_body_def Let_def
        by (simp only: False nb ns if_False if_True simp_thms k abortAt_simps distribs
            cong: if_cong ret.case_cong option.case_cong sum.case_cong)
    qed
  qed
qed

lemma seenAfter_Cons:
  "seenAfter seen (e # pre) =
   seenAfter (if Skip (Tag e) then seen else seen \<or> BinaryExtension (Tag e)) pre"
  by (auto simp: seenAfter_def)

lemma loop_abort:
  assumes "\<not> Skip (Tag f)" "\<not> BinaryExtension (Tag f)"
  shows "seenAfter seen pre \<Longrightarrow>
    decodeStruct_loop (pre @ f # post) i m seen vs d =
    abortAt f (decodeStruct_loop pre i m seen vs d)"
proof (induction pre arbitrary: i m seen vs d)
  case Nil
  then show ?case using assms by (simp add: seenAfter_def)
next
  case (Cons e pre)
  from Cons.prems
  have sa: "seenAfter (if Skip (Tag e) then seen else seen \<or> BinaryExtension (Tag e)) pre"
    by (simp only: seenAfter_Cons)
  have "decodeStruct_loop ((e # pre) @ f # post) i m seen vs d =
      field_body e i m seen vs d (decodeStruct_loop (pre @ f # post) (i + 1))"
    by (simp only: append_Cons loop_Cons)
  also have "\<dots> = abortAt f (field_body e i m seen vs d (decodeStruct_loop pre (i + 1)))"
    by (rule field_body_abortAt) (rule Cons.IH [OF sa])
  also have "\<dots> = abortAt f (decodeStruct_loop (e # pre) i m seen vs d)"
    by (simp only: loop_Cons)
  finally show ?case .
qed

lemma decode_value_Struct:
  "decode_value (Struct fs) v None d =
     (case decodeStruct fs (elems v) d of
        Panicked p \<Rightarrow> Panicked p
      | Ret vs err d1 \<Rightarrow> Ret (VStruct vs) err d1)"
  by (simp add: decode_value.simps [of "Struct fs"] Type_of_def value_optional_def
      isOptional_def value_scalar_def)

text \<open>
  Claim C4, as amended. Let a record have a field \<open>f\<close> that carries neither the
  extension tag nor the skip tag, after fields \<open>pre\<close> one of which carries the
  extension tag and not the skip tag. Decoding the record runs the fields \<open>pre\<close> as
  decoding the record cut off before \<open>f\<close> would: when one of them fails or panics that
  is the outcome, with the same error; when they all decode, the decode panics with the
  message about \<open>f\<close>. The input bytes decide which of the two happens.
\<close>

theorem binary_extension_order_panic:
  assumes "\<not> Skip (Tag f)" and "\<not> BinaryExtension (Tag f)" and "seenAfter False pre"
  shows "Decode (Struct (pre @ f # post)) v d =
     (case Decode (Struct pre) v d of
        Ret v' None d' \<Rightarrow> Panicked (PanicBinaryExtensionOrder (Name f))
      | r \<Rightarrow> r)"
proof -
  have "decodeStruct (pre @ f # post) (elems v) d = abortAt f (decodeStruct pre (elems v) d)"
    using loop_abort [OF assms(1,2,3)] by simp
  then show ?thesis
    by (simp add: Decode_def decode_value_Struct split: ret.split option.split)
qed

theorem binary_extension_order_panic_witness:
  "\<not> Skip (Tag (StructField ''C''
      \<lparr>Skip = False, BinaryExtension = False, Optional = False, Sizeof = []\<rparr> True Uint32)) \<and>
   \<not> BinaryExtension (Tag (StructField ''C''
      \<lparr>Skip = False, BinaryExtension = False, Optional = False, Sizeof = []\<rparr> True Uint32)) \<and>
   seenAfter False
     [StructField ''A''
        \<lparr>Skip = False, BinaryExtension = False, Optional = False, Sizeof = []\<rparr> True Uint32,
      StructField ''B''
        \<lparr>Skip = False, BinaryExtension = True, Optional = False, Sizeof = []\<rparr> True Uint32] \<and>
   Decode
     (Struct [StructField ''A''
                \<lparr>Skip = False, BinaryExtension = False, Optional = False, Sizeof = []\<rparr>
                True Uint32,
              StructField ''B''
                \<lparr>Skip = False, BinaryExtension = True, Optional = False, Sizeof = []\<rparr>
                True Uint32,
              StructField ''C''
                \<lparr>Skip = False, BinaryExtension = False, Optional = False, Sizeof = []\<rparr>
                True Uint32])
     (VStruct [VUint 0, VUint 0, VUint 0]) (NewDecoder [1, 0, 0, 0, 2, 0, 0, 0]) =
   Panicked (PanicBinaryExtensionOrder ''C'')"
proof -
  let ?C = "StructField ''C''
      \<lparr>Skip = False, BinaryExtension = False, Optional = False, Sizeof = []\<rparr> True Uint32"
  let ?pre = "[StructField ''A''
        \<lparr>Skip = False, BinaryExtension = False, Optional = False, Sizeof = []\<rparr> True Uint32,
      StructField ''B''
        \<lparr>Skip = False, BinaryExtension = True, Optional = False, Sizeof = []\<rparr> True Uint32]"
  let ?d = "NewDecoder [1, 0, 0, 0, 2, 0, 0, 0]"
  have a: "\<not> Skip (Tag ?C)" and b: "\<not> BinaryExtension (Tag ?C)"
    by simp_all
  have c: "seenAfter False ?pre"
    by (simp add: seenAfter_def)
  have p: "Decode (Struct ?pre) (VStruct [VUint 0, VUint 0, VUint 0]) ?d =
     Ret (VStruct [VUint 1, VUint 2, VUint 0]) None
       \<lparr>data = [1, 0, 0, 0, 2, 0, 0, 0], pos = 8\<rparr>"
    by code_simp
  show ?thesis
    using a b c p
      binary_extension_order_panic [OF a b c, of "[]" "VStruct [VUint 0, VUint 0, VUint 0]" ?d]
    by simp
qed

text \<open>
  The claim as stated fails: the same record type on an empty buffer returns the
  underrun error of its first field and does not panic.
\<close>

theorem binary_extension_order_counterexample:
  "Decode
     (Struct [StructField ''A''
                \<lparr>Skip = False, BinaryExtension = False, Optional = False, Sizeof = []\<rparr>
                True Uint32,
              StructField ''B''
                \<lparr>Skip = False, BinaryExtension = True, Optional = False, Sizeof = []\<rparr>
                True Uint32,
              StructField ''C''
                \<lparr>Skip = False, BinaryExtension = False, Optional = False, Sizeof = []\<rparr>
                True Uint32])
     (VStruct [VUint 0, VUint 0, VUint 0]) (NewDecoder []) =
   Ret (VStruct [VUint 0, VUint 0, VUint 0]) (Some (ErrRequired ''uint32'' 4 0))
     \<lparr>data = [], pos = 0\<rparr>"
  by code_simp


section \<open>Skipped fields after extension fields\<close>

lemma sizeof_panic: "sizeof t v = Inl p \<Longrightarrow> p = PanicSizeof"
  by (induction t) (auto simp: sizeof_int_def sizeof_uint_def Let_def split: val.splits if_splits)

lemma ReadByteArray_no_schema: "ReadByteArray d \<noteq> Panicked (PanicBinaryExtensionOrder n)"
  by (auto simp: ReadByteArray_def ReadUvarint64_def Let_def split: prod.splits if_splits ret.splits option.splits)

lemma value_scalar_no_schema:
  "value_scalar t v d = Some r \<Longrightarrow> r \<noteq> Panicked (PanicBinaryExtensionOrder n)"
  using ReadByteArray_no_schema [of d n]
  by (auto simp: value_scalar_def ReadString_def ReadByte_def ReadInt8_def ReadUint16_def ReadInt16_def
      ReadUint32_def ReadInt32_def ReadUint64_def ReadInt64_def ReadFloat32_def ReadFloat64_def ReadBool_def
      split: rtype.splits ret.splits option.splits if_splits)

lemma value_optional_no_panic: "value_optional option t v d = Inl r \<Longrightarrow> r \<noteq> Panicked p"
  by (auto simp: value_optional_def ReadByte_def split: if_splits ret.splits option.splits)

lemma value_slice_len_no_panic: "value_slice_len option v d = Inl r \<Longrightarrow> r \<noteq> Panicked p"
  by (auto simp: value_slice_len_def ReadUvarint64_def split: if_splits ret.splits option.splits prod.splits)


lemma value_elems_no_schema:
  assumes "\<And>v opt d. decodeWithOption et v opt d \<noteq> Panicked (PanicBinaryExtensionOrder n)"
  shows "value_elems et i len vs d \<noteq> Panicked (PanicBinaryExtensionOrder n)"
proof (induction "len - i" arbitrary: i vs d)
  case 0
  then show ?case by (simp add: value_elems.simps [of et i])
next
  case (Suc k)
  then have lt: "i < len" and k: "k = len - (i + 1)" by simp_all
  show ?case
  proof (cases "decodeWithOption et (vs ! i) None d")
    case (Panicked p)
    then show ?thesis
      using assms [of "vs ! i" None d] lt by (simp add: value_elems.simps [of et i])
  next
    case (Ret v err d1)
    then show ?thesis
      using lt Suc.hyps(1) [OF k, of "vs[i := v]" d1]
      by (cases err) (simp_all add: value_elems.simps [of et i])
  qed
qed

lemma field_body_no_schema:
  assumes dec: "\<And>v opt d. \<not> Skip (Tag e) \<Longrightarrow>
      decodeWithOption (Type e) v opt d \<noteq> Panicked (PanicBinaryExtensionOrder n)"
    and k: "\<And>m' vs' d'.
      k m' (if Skip (Tag e) then seen else seen \<or> BinaryExtension (Tag e)) vs' d' \<noteq>
      Panicked (PanicBinaryExtensionOrder n)"
    and ok: "Skip (Tag e) \<or> BinaryExtension (Tag e) \<or> \<not> seen"
  shows "field_body e i m seen vs d k \<noteq> Panicked (PanicBinaryExtensionOrder n)"
proof (cases "Skip (Tag e)")
  case True
  then show ?thesis using k by (simp add: field_body_def)
next
  case False
  define s where "s = (seen \<or> BinaryExtension (Tag e))"
  define opt where "opt =
    (if Optional (Tag e)
     then (case m (Name e) of
             Some x \<Rightarrow> setSizeOfSlice \<lparr>OptionalField = False, SizeOfSlice = None\<rparr> x
           | None \<Rightarrow> \<lparr>OptionalField = False, SizeOfSlice = None\<rparr>)\<lparr>OptionalField := True\<rparr>
     else (case m (Name e) of
             Some x \<Rightarrow> setSizeOfSlice \<lparr>OptionalField = False, SizeOfSlice = None\<rparr> x
           | None \<Rightarrow> \<lparr>OptionalField = False, SizeOfSlice = None\<rparr>))"
  from False k have k': "\<And>m' vs' d'. k m' s vs' d' \<noteq> Panicked (PanicBinaryExtensionOrder n)"
    by (simp add: s_def)
  from False ok have ok': "\<not> (\<not> BinaryExtension (Tag e) \<and> seen)"
    by simp
  have fb: "field_body e i m seen vs d k =
     (if BinaryExtension (Tag e) \<and> length (drop (pos d) (data d)) \<le> 0
      then k m s vs d
      else if CanSet e \<and> Name e \<noteq> ''_'' then
        (case decodeWithOption (Type e) (vs ! i) (Some opt) d of
           Panicked p \<Rightarrow> Panicked p
         | Ret v (Some err) d1 \<Rightarrow> Ret (vs[i := v]) (Some err) d1
         | Ret v None d1 \<Rightarrow>
             if Sizeof (Tag e) \<noteq> [] then
               (case sizeof (Type e) v of
                  Inl p \<Rightarrow> Panicked p
                | Inr sz \<Rightarrow> k (m(Sizeof (Tag e) \<mapsto> sz)) s (vs[i := v]) d1)
             else k m s (vs[i := v]) d1)
      else k m s vs d)"
    unfolding field_body_def Let_def s_def opt_def
    by (simp only: False ok' if_False)
  show ?thesis
  proof (cases "decodeWithOption (Type e) (vs ! i) (Some opt) d")
    case (Panicked p)
    then show ?thesis
      using dec [OF False, of "vs ! i" "Some opt" d] k' by (simp add: fb)
  next
    case (Ret v err d1)
    show ?thesis
    proof (cases err)
      case None
      show ?thesis
      proof (cases "sizeof (Type e) v")
        case (Inl p)
        then show ?thesis using Ret None k' sizeof_panic [OF Inl] by (simp add: fb)
      next
        case (Inr sz)
        then show ?thesis using Ret None k' by (simp add: fb)
      qed
    next
      case (Some a)
      then show ?thesis using Ret k' by (simp add: fb)
    qed
  qed
qed


lemma loop_no_schema:
  assumes dec: "\<And>f v opt d. f \<in> set fs \<Longrightarrow> \<not> Skip (Tag f) \<Longrightarrow>
      decodeWithOption (Type f) v opt d \<noteq> Panicked (PanicBinaryExtensionOrder n)"
  shows "skip_after_ext s fs \<Longrightarrow> (seen \<longrightarrow> s) \<Longrightarrow>
    decodeStruct_loop fs i m seen vs d \<noteq> Panicked (PanicBinaryExtensionOrder n)"
  using dec
proof (induction fs arbitrary: s seen i m vs d)
  case Nil
  show ?case by simp
next
  case (Cons e fs)
  have dec_e: "\<And>v opt d. \<not> Skip (Tag e) \<Longrightarrow>
      decodeWithOption (Type e) v opt d \<noteq> Panicked (PanicBinaryExtensionOrder n)"
    using Cons.prems(3) by simp
  have dec_fs: "\<And>f v opt d. f \<in> set fs \<Longrightarrow> \<not> Skip (Tag f) \<Longrightarrow>
      decodeWithOption (Type f) v opt d \<noteq> Panicked (PanicBinaryExtensionOrder n)"
    using Cons.prems(3) by simp
  have rest: "decodeStruct_loop fs (i + 1) m'
        (if Skip (Tag e) then seen else seen \<or> BinaryExtension (Tag e)) vs' d' \<noteq>
      Panicked (PanicBinaryExtensionOrder n)" for m' vs' d'
  proof (cases "BinaryExtension (Tag e)")
    case True
    with Cons.prems(1) have "skip_after_ext True fs" by simp
    then show ?thesis using Cons.IH [of True, OF _ _ dec_fs] by simp
  next
    case False
    with Cons.prems(1) have "skip_after_ext s fs" by simp
    moreover have "(if Skip (Tag e) then seen else seen \<or> BinaryExtension (Tag e)) \<longrightarrow> s"
      using False Cons.prems(2) by simp
    ultimately show ?thesis using Cons.IH [of s, OF _ _ dec_fs] by blast
  qed
  have ok: "Skip (Tag e) \<or> BinaryExtension (Tag e) \<or> \<not> seen"
    using Cons.prems(1,2) by (auto split: if_splits)
  show ?case
    unfolding loop_Cons
    by (rule field_body_no_schema
        [where k = "decodeStruct_loop fs (i + 1)" and seen = seen and e = e,
          OF dec_e rest ok])
qed

lemma decode_value_no_schema_step:
  assumes "\<And>et len vs d. t = Array len et \<Longrightarrow>
      value_elems et 0 len vs d \<noteq> Panicked (PanicBinaryExtensionOrder n)"
    and "\<And>et len vs d. t = Slice et \<Longrightarrow>
      value_elems et 0 len vs d \<noteq> Panicked (PanicBinaryExtensionOrder n)"
    and "\<And>fs vs d. t = Struct fs \<Longrightarrow>
      decodeStruct fs vs d \<noteq> Panicked (PanicBinaryExtensionOrder n)"
  shows "decode_value t v opt d \<noteq> Panicked (PanicBinaryExtensionOrder n)"
proof (cases "implementsUnmarshalerBinary t")
  case True
  then show ?thesis
    by (cases t) (simp_all add: implementsUnmarshalerBinary_def decode_value.simps Type_of_def)
next
  case False
  show ?thesis
    using assms
    by (auto simp: decode_value.simps [of t] indirect_plain [OF False] Type_of_def Let_def
        split: sum.splits option.splits rtype.splits ret.splits prod.splits if_splits
        dest: value_optional_no_panic value_scalar_no_schema value_slice_len_no_panic)
qed


lemma no_schema_panic:
  fixes t :: rtype and f :: sfield
  shows "packed t \<Longrightarrow> decode_value t v opt d \<noteq> Panicked (PanicBinaryExtensionOrder n)"
    and "packed_field f \<Longrightarrow> \<not> Skip (Tag f) \<Longrightarrow>
      decode_value (Type f) v opt d \<noteq> Panicked (PanicBinaryExtensionOrder n)"
proof (induction t and f arbitrary: v opt d and v opt d)
  case (Array len et)
  then have "\<And>v opt d. decodeWithOption et v opt d \<noteq> Panicked (PanicBinaryExtensionOrder n)"
    by simp
  then show ?case
    by (intro decode_value_no_schema_step) (simp_all add: value_elems_no_schema)
next
  case (Slice et)
  then have "\<And>v opt d. decodeWithOption et v opt d \<noteq> Panicked (PanicBinaryExtensionOrder n)"
    by simp
  then show ?case
    by (intro decode_value_no_schema_step) (simp_all add: value_elems_no_schema)
next
  case (Struct fs)
  have dec: "decodeWithOption (Type f) v opt d \<noteq> Panicked (PanicBinaryExtensionOrder n)"
    if "f \<in> set fs" "\<not> Skip (Tag f)" for f v opt d
  proof -
    from Struct.prems that(1) have "packed_field f"
      by (auto simp: list_all_iff)
    then show ?thesis using Struct.IH [OF that(1) _ that(2)] by simp
  qed
  from Struct.prems have sk: "skip_after_ext False fs" by simp
  have "decodeStruct fs vs d \<noteq> Panicked (PanicBinaryExtensionOrder n)" for vs d
    using loop_no_schema [of fs n False False 0 Map.empty vs d, OF dec sk] by simp
  then show ?case
    by (intro decode_value_no_schema_step) simp_all
next
  case (StructField x1 x2 x3 x4)
  then show ?case by simp
qed (rule decode_value_no_schema_step; simp)+

lemma field_body_Ret:
  assumes "field_body e i m seen vs d k = Ret vs' err d'"
  shows "(\<exists>m' s' d0. k m' s' vs d0 = Ret vs' err d') \<or>
     (\<not> Skip (Tag e) \<and>
      (\<exists>v. vs' = vs[i := v] \<or> (\<exists>m' s' d0. k m' s' (vs[i := v]) d0 = Ret vs' err d')))"
proof (cases "Skip (Tag e)")
  case True
  then show ?thesis using assms by (auto simp: field_body_def)
next
  case False
  show ?thesis
  proof (cases "\<not> BinaryExtension (Tag e) \<and> seen")
    case True
    then show ?thesis using assms False by (simp add: field_body_def)
  next
    case ok': False
    define s where "s = (seen \<or> BinaryExtension (Tag e))"
    define opt where "opt =
      (if Optional (Tag e)
       then (case m (Name e) of
               Some x \<Rightarrow> setSizeOfSlice \<lparr>OptionalField = False, SizeOfSlice = None\<rparr> x
             | None \<Rightarrow> \<lparr>OptionalField = False, SizeOfSlice = None\<rparr>)\<lparr>OptionalField := True\<rparr>
       else (case m (Name e) of
               Some x \<Rightarrow> setSizeOfSlice \<lparr>OptionalField = False, SizeOfSlice = None\<rparr> x
             | None \<Rightarrow> \<lparr>OptionalField = False, SizeOfSlice = None\<rparr>))"
    have fb: "field_body e i m seen vs d k =
       (if BinaryExtension (Tag e) \<and> length (drop (pos d) (data d)) \<le> 0
        then k m s vs d
        else if CanSet e \<and> Name e \<noteq> ''_'' then
          (case decodeWithOption (Type e) (vs ! i) (Some opt) d of
             Panicked p \<Rightarrow> Panicked p
           | Ret v (Some err) d1 \<Rightarrow> Ret (vs[i := v]) (Some err) d1
           | Ret v None d1 \<Rightarrow>
               if Sizeof (Tag e) \<noteq> [] then
                 (case sizeof (Type e) v of
                    Inl p \<Rightarrow> Panicked p
                  | Inr sz \<Rightarrow> k (m(Sizeof (Tag e) \<mapsto> sz)) s (vs[i := v]) d1)
               else k m s (vs[i := v]) d1)
        else k m s vs d)"
      unfolding field_body_def Let_def s_def opt_def
      by (simp only: False ok' if_False)
    show ?thesis
    proof (cases "decodeWithOption (Type e) (vs ! i) (Some opt) d")
      case (Panicked p)
      then show ?thesis using assms False unfolding fb by (auto split: if_splits)
    next
      case (Ret v err1 d1)
      show ?thesis
      proof (cases err1)
        case None
        show ?thesis
        proof (cases "sizeof (Type e) v")
          case (Inl p)
          then show ?thesis using assms False Ret None unfolding fb
            by (auto split: if_splits)
        next
          case (Inr sz)
          then show ?thesis using assms False Ret None unfolding fb
            by (auto split: if_splits)
        qed
      next
        case (Some a)
        then show ?thesis using assms False Ret unfolding fb
          by (auto split: if_splits)
      qed
    qed
  qed
qed

lemma loop_frame:
  "decodeStruct_loop fs i m seen vs d = Ret vs' err d' \<Longrightarrow>
   (j < i \<or> (i \<le> j \<and> j - i < length fs \<and> Skip (Tag (fs ! (j - i))))) \<Longrightarrow>
   vs' ! j = vs ! j"
proof (induction fs arbitrary: i m seen vs d)
  case Nil
  then show ?case by simp
next
  case (Cons e fs)
  have next_j: "j < i + 1 \<or> (i + 1 \<le> j \<and> j - (i + 1) < length fs \<and>
      Skip (Tag (fs ! (j - (i + 1)))))" if "j \<noteq> i \<or> Skip (Tag e)"
  proof (cases "j \<le> i")
    case True
    then show ?thesis by simp
  next
    case False
    then obtain q where q: "j - i = Suc q" by (cases "j - i") simp_all
    then have "j - (i + 1) = q" by simp
    with Cons.prems(2) q False show ?thesis by simp
  qed
  have ji: "\<not> Skip (Tag e) \<Longrightarrow> j \<noteq> i"
    using Cons.prems(2) by auto
  from Cons.prems(1) have "field_body e i m seen vs d (decodeStruct_loop fs (i + 1)) = Ret vs' err d'"
    by (simp only: loop_Cons)
  from field_body_Ret [OF this]
  show ?case
  proof (elim disjE conjE exE)
    fix m' s' d0
    assume k: "decodeStruct_loop fs (i + 1) m' s' vs d0 = Ret vs' err d'"
    show ?thesis
    proof (cases "j = i \<and> \<not> Skip (Tag e)")
      case True
      then show ?thesis using Cons.IH [OF k] by simp
    next
      case False
      then show ?thesis using Cons.IH [OF k next_j] by blast
    qed
  next
    fix v
    assume ns: "\<not> Skip (Tag e)" and "vs' = vs[i := v]"
    then show ?thesis using ji by simp
  next
    fix v m' s' d0
    assume ns: "\<not> Skip (Tag e)"
      and k: "decodeStruct_loop fs (i + 1) m' s' (vs[i := v]) d0 = Ret vs' err d'"
    have "vs' ! j = (vs[i := v]) ! j"
      using Cons.IH [OF k next_j] ji [OF ns] by simp
    then show ?thesis using ji [OF ns] by simp
  qed
qed


text \<open>
  Claim C9. Let every record type that the decoder reaches in \<open>Struct fs\<close> have only
  skipped fields among the fields without the extension tag that follow a field with
  it. Then decoding never raises the panic about the order of the extension fields;
  when the decode returns, every skipped field holds the value it held before; and the
  loop passes a skipped field by with its whole state unchanged, the decoder and its
  position included, whatever the flag \<^verbatim>\<open>seenBinaryExtensionField\<close> says.
\<close>

theorem skip_after_binary_extension:
  assumes "packed (Struct fs)"
  shows "Decode (Struct fs) v d \<noteq> Panicked (PanicBinaryExtensionOrder n) \<and>
    (\<forall>i vs' err d'. Decode (Struct fs) v d = Ret (VStruct vs') err d' \<longrightarrow>
       i < length fs \<longrightarrow> Skip (Tag (fs ! i)) \<longrightarrow> vs' ! i = elems v ! i) \<and>
    (\<forall>e rest i m seen vs d0. Skip (Tag e) \<longrightarrow>
       decodeStruct_loop (e # rest) i m seen vs d0 =
       decodeStruct_loop rest (i + 1) m seen vs d0)"
proof (intro conjI allI impI)
  show "Decode (Struct fs) v d \<noteq> Panicked (PanicBinaryExtensionOrder n)"
    using no_schema_panic(1) [OF assms] by (simp add: Decode_def)
next
  fix i vs' err d'
  assume r: "Decode (Struct fs) v d = Ret (VStruct vs') err d'"
    and i: "i < length fs" and sk: "Skip (Tag (fs ! i))"
  from r have "decodeStruct_loop fs 0 Map.empty False (elems v) d = Ret vs' err d'"
    by (simp add: Decode_def decode_value_Struct split: ret.splits)
  from loop_frame [OF this, of i] i sk show "vs' ! i = elems v ! i"
    by simp
next
  fix e rest i m seen vs d0
  assume "Skip (Tag e)"
  then show "decodeStruct_loop (e # rest) i m seen vs d0 =
      decodeStruct_loop rest (i + 1) m seen vs d0"
    by simp
qed


theorem skip_after_binary_extension_witness:
  "packed
     (Struct [StructField ''A''
                \<lparr>Skip = False, BinaryExtension = False, Optional = False, Sizeof = []\<rparr>
                True Uint32,
              StructField ''B''
                \<lparr>Skip = False, BinaryExtension = True, Optional = False, Sizeof = []\<rparr>
                True Uint32,
              StructField ''S''
                \<lparr>Skip = True, BinaryExtension = False, Optional = False, Sizeof = []\<rparr>
                True Uint16]) \<and>
   Decode
     (Struct [StructField ''A''
                \<lparr>Skip = False, BinaryExtension = False, Optional = False, Sizeof = []\<rparr>
                True Uint32,
              StructField ''B''
                \<lparr>Skip = False, BinaryExtension = True, Optional = False, Sizeof = []\<rparr>
                True Uint32,
              StructField ''S''
                \<lparr>Skip = True, BinaryExtension = False, Optional = False, Sizeof = []\<rparr>
                True Uint16])
     (VStruct [VUint 0, VUint 0, VUint 7]) (NewDecoder [1, 0, 0, 0, 2, 0, 0, 0]) =
   Ret (VStruct [VUint 1, VUint 2, VUint 7]) None
     \<lparr>data = [1, 0, 0, 0, 2, 0, 0, 0], pos = 8\<rparr> \<and>
   Decode
     (Struct [StructField ''A''
                \<lparr>Skip = False, BinaryExtension = False, Optional = False, Sizeof = []\<rparr>
                True Uint32,
              StructField ''B''
                \<lparr>Skip = False, BinaryExtension = True, Optional = False, Sizeof = []\<rparr>
                True Uint32,
              StructField ''S''
                \<lparr>Skip = True, BinaryExtension = False, Optional = False, Sizeof = []\<rparr>
                True Uint16])
     (VStruct [VUint 0, VUint 0, VUint 7]) (NewDecoder [1, 0, 0, 0, 2, 0, 0, 0]) \<noteq>
   Panicked (PanicBinaryExtensionOrder ''S'')"
proof -
  let ?fs = "[StructField ''A''
                \<lparr>Skip = False, BinaryExtension = False, Optional = False, Sizeof = []\<rparr>
                True Uint32,
              StructField ''B''
                \<lparr>Skip = False, BinaryExtension = True, Optional = False, Sizeof = []\<rparr>
                True Uint32,
              StructField ''S''
                \<lparr>Skip = True, BinaryExtension = False, Optional = False, Sizeof = []\<rparr>
                True Uint16]"
  let ?v = "VStruct [VUint 0, VUint 0, VUint 7]"
  let ?d = "NewDecoder [1, 0, 0, 0, 2, 0, 0, 0]"
  have a: "packed (Struct ?fs)"
    by simp
  have p: "Decode (Struct ?fs) ?v ?d =
     Ret (VStruct [VUint 1, VUint 2, VUint 7]) None
       \<lparr>data = [1, 0, 0, 0, 2, 0, 0, 0], pos = 8\<rparr>"
    by code_simp
  from skip_after_binary_extension [OF a, of ?v ?d "''S''"]
  have "Decode (Struct ?fs) ?v ?d \<noteq> Panicked (PanicBinaryExtensionOrder ''S'')"
    by (rule conjunct1)
  with a p show ?thesis
    by (intro conjI)
qed


section \<open>The string readers\<close>

lemma mod_range:
  fixes u k m :: nat
  assumes "k * m \<le> u" "u < k * m + m"
  shows "u mod m = u - k * m" and "u div m = k"
proof -
  define r where "r = u - k * m"
  have r: "r < m" and u: "u = r + k * m"
    using assms by (simp_all add: r_def)
  show "u mod m = u - k * m"
    using r by (simp add: u)
  show "u div m = k"
    using r by (simp add: u)
qed

lemma digits2:
  fixes a b :: nat
  assumes "b < 64"
  shows "(a * 64 + b) div 64 = a" and "(a * 64 + b) mod 64 = b"
  using assms by simp_all

lemma digits3:
  fixes a b e :: nat
  assumes "b < 64" "e < 64"
  shows "(a * 4096 + b * 64 + e) div 4096 = a"
    and "(a * 4096 + b * 64 + e) div 64 mod 64 = b"
    and "(a * 4096 + b * 64 + e) mod 64 = e"
proof -
  have d64: "(a * 4096 + b * 64 + e) div 64 = a * 64 + b"
    using assms by (intro mod_range(2)) simp_all
  have m64: "(a * 4096 + b * 64 + e) mod 64 = e"
    using assms mod_range(1) [of "a * 64 + b" 64 "a * 4096 + b * 64 + e"] by simp
  show "(a * 4096 + b * 64 + e) mod 64 = e" by (rule m64)
  show "(a * 4096 + b * 64 + e) div 64 mod 64 = b"
    unfolding d64 using assms(1) by (rule digits2(2))
  show "(a * 4096 + b * 64 + e) div 4096 = a"
    using assms by (intro mod_range(2)) simp_all
qed

lemma digits4:
  fixes a b e f :: nat
  assumes "b < 64" "e < 64" "f < 64"
  shows "(a * 262144 + b * 4096 + e * 64 + f) div 262144 = a"
    and "(a * 262144 + b * 4096 + e * 64 + f) div 4096 mod 64 = b"
    and "(a * 262144 + b * 4096 + e * 64 + f) div 64 mod 64 = e"
    and "(a * 262144 + b * 4096 + e * 64 + f) mod 64 = f"
proof -
  let ?c = "a * 262144 + b * 4096 + e * 64 + f"
  have d64: "?c div 64 = (a * 64 + b) * 64 + e"
    using assms by (intro mod_range(2)) simp_all
  have m64: "?c mod 64 = f"
    using assms mod_range(1) [of "(a * 64 + b) * 64 + e" 64 ?c] by simp
  show "?c mod 64 = f" by (rule m64)
  show "?c div 64 mod 64 = e" unfolding d64 using assms(2) by (rule digits2(2))
  have d4096: "?c div 4096 = a * 64 + b"
    using assms by (intro mod_range(2)) simp_all
  show "?c div 4096 mod 64 = b" unfolding d4096 using assms(1) by (rule digits2(2))
  show "?c div 262144 = a"
    using assms by (intro mod_range(2)) simp_all
qed


lemma AppendRune_nat:
  assumes "c < 2 ^ 32"
  shows "AppendRune (int c) =
     (if c \<le> 0x7F then [of_nat c]
      else if c \<le> 0x7FF then [of_nat (0xC0 + c div 64), of_nat (0x80 + c mod 64)]
      else if c > 0x10FFFF \<or> (0xD800 \<le> c \<and> c \<le> 0xDFFF) then [0xEF, 0xBF, 0xBD]
      else if c \<le> 0xFFFF
      then [of_nat (0xE0 + c div 4096), of_nat (0x80 + c div 64 mod 64), of_nat (0x80 + c mod 64)]
      else [of_nat (0xF0 + c div 262144), of_nat (0x80 + c div 4096 mod 64),
            of_nat (0x80 + c div 64 mod 64), of_nat (0x80 + c mod 64)])"
proof -
  have i: "int c mod 2 ^ 32 = int c"
    using assms by simp
  have d: "int x div int k = int (x div k)" and m: "int x mod int k = int (x mod k)" for x k
    by (simp_all add: zdiv_int zmod_int)
  have dn: "int x div numeral k = int (x div numeral k)"
    and mn: "int x mod numeral k = int (x mod numeral k)" for x k
    using d [of x "numeral k"] m [of x "numeral k"] by simp_all
  show ?thesis
    unfolding AppendRune_def Let_def i
    by (simp add: dn mn RuneError_def)
qed


lemma take1: "s \<noteq> [] \<Longrightarrow> take (Suc 0) s = [s ! 0]"
  by (cases s) simp_all

lemma take2: "2 \<le> length s \<Longrightarrow> take 2 s = [s ! 0, s ! 1]"
  by (auto simp: numeral_2_eq_2 Suc_le_length_iff)

lemma take3: "3 \<le> length s \<Longrightarrow> take 3 s = [s ! 0, s ! 1, s ! 2]"
  by (auto simp: numeral_3_eq_3 numeral_2_eq_2 Suc_le_length_iff)

lemma take4: "4 \<le> length s \<Longrightarrow> take 4 s = [s ! 0, s ! 1, s ! 2, s ! 3]"
proof -
  assume "4 \<le> length s"
  then have "Suc (Suc (Suc (Suc 0))) \<le> length s" by simp
  then obtain x0 x1 x2 x3 r where "s = x0 # x1 # x2 # x3 # r"
    by (auto simp: Suc_le_length_iff)
  then show ?thesis by (simp add: numeral_3_eq_3 numeral_2_eq_2)
qed

lemma AppendRune_two:
  fixes u0 u1 :: nat
  assumes "0xC2 \<le> u0" "u0 < 0xE0" "cont u1"
  shows "AppendRune (int (u0 mod 32 * 64 + u1 mod 64)) = [of_nat u0, of_nat u1]"
proof -
  define a b where "a = u0 - 192" and "b = u1 - 128"
  from assms(3) have r1: "128 \<le> u1" "u1 \<le> 191" by (simp_all add: cont_def)
  have a: "u0 mod 32 = a" using assms(1,2) mod_range(1) [of 6 32 u0] by (simp add: a_def)
  have b: "u1 mod 64 = b" using r1 mod_range(1) [of 2 64 u1] by (simp add: b_def)
  have u0: "u0 = 192 + a" and u1: "u1 = 128 + b"
    using assms(1,2) r1 by (simp_all add: a_def b_def)
  have ra: "2 \<le> a" "a < 32" and rb: "b < 64"
    using assms(1,2) r1 by (simp_all add: a_def b_def)
  have c: "128 \<le> a * 64 + b" "a * 64 + b \<le> 2047" "a * 64 + b < 2 ^ 32"
    using ra rb by simp_all
  show ?thesis
    unfolding a b
    by (subst AppendRune_nat [OF c(3)])
      (use c(1,2) digits2 [OF rb, of a] in \<open>simp add: u0 u1\<close>)
qed

lemma AppendRune_three:
  fixes u0 u1 u2 :: nat
  assumes "0xE0 \<le> u0" "u0 < 0xF0" "fst (accept3 u0) \<le> u1" "u1 \<le> snd (accept3 u0)" "cont u2"
  shows "AppendRune (int (u0 mod 16 * 4096 + u1 mod 64 * 64 + u2 mod 64)) =
    [of_nat u0, of_nat u1, of_nat u2]"
proof -
  define a b e where "a = u0 - 224" and "b = u1 - 128" and "e = u2 - 128"
  from assms(5) have r2: "128 \<le> u2" "u2 \<le> 191" by (simp_all add: cont_def)
  from assms(3,4) have r1: "128 \<le> u1" "u1 \<le> 191"
    by (simp_all add: accept3_def split: if_splits)
  have lo: "u0 = 224 \<Longrightarrow> 160 \<le> u1" and hi: "u0 = 237 \<Longrightarrow> u1 \<le> 159"
    using assms(3,4) by (simp_all add: accept3_def)
  have a: "u0 mod 16 = a" using assms(1,2) mod_range(1) [of 14 16 u0] by (simp add: a_def)
  have b: "u1 mod 64 = b" using r1 mod_range(1) [of 2 64 u1] by (simp add: b_def)
  have e: "u2 mod 64 = e" using r2 mod_range(1) [of 2 64 u2] by (simp add: e_def)
  have u: "u0 = 224 + a" "u1 = 128 + b" "u2 = 128 + e"
    using assms(1,2) r1 r2 by (simp_all add: a_def b_def e_def)
  have ra: "a < 16" and rb: "b < 64" and re: "e < 64"
    using assms(1,2) r1 r2 by (simp_all add: a_def b_def e_def)
  have lo': "a = 0 \<Longrightarrow> 32 \<le> b" and hi': "a = 13 \<Longrightarrow> b \<le> 31"
    using lo hi u by simp_all
  let ?c = "a * 4096 + b * 64 + e"
  have c1: "2048 \<le> ?c"
    using lo' by (cases "a = 0") simp_all
  have c2: "\<not> (55296 \<le> ?c \<and> ?c \<le> 57343)"
  proof (cases "a = 13")
    case True
    then show ?thesis using hi' rb re by simp
  next
    case False
    then consider "a \<le> 12" | "14 \<le> a" by linarith
    then show ?thesis using rb re by cases simp_all
  qed
  have c3: "?c \<le> 65535" "?c < 2 ^ 32"
    using ra rb re by simp_all
  show ?thesis
    unfolding a b e
    by (subst AppendRune_nat [OF c3(2)])
      (use c1 c2 c3(1) digits3 [OF rb re, of a] in \<open>auto simp: u\<close>)
qed

lemma AppendRune_four:
  fixes u0 u1 u2 u3 :: nat
  assumes "0xF0 \<le> u0" "u0 \<le> 0xF4" "fst (accept4 u0) \<le> u1" "u1 \<le> snd (accept4 u0)"
    "cont u2" "cont u3"
  shows "AppendRune (int (u0 mod 8 * 262144 + u1 mod 64 * 4096 + u2 mod 64 * 64 + u3 mod 64)) =
    [of_nat u0, of_nat u1, of_nat u2, of_nat u3]"
proof -
  define a b e f where "a = u0 - 240" and "b = u1 - 128" and "e = u2 - 128" and "f = u3 - 128"
  from assms(5) have r2: "128 \<le> u2" "u2 \<le> 191" by (simp_all add: cont_def)
  from assms(6) have r3: "128 \<le> u3" "u3 \<le> 191" by (simp_all add: cont_def)
  from assms(3,4) have r1: "128 \<le> u1" "u1 \<le> 191"
    by (simp_all add: accept4_def split: if_splits)
  have lo: "u0 = 240 \<Longrightarrow> 144 \<le> u1" and hi: "u0 = 244 \<Longrightarrow> u1 \<le> 143"
    using assms(3,4) by (simp_all add: accept4_def)
  have a: "u0 mod 8 = a" using assms(1,2) mod_range(1) [of 30 8 u0] by (simp add: a_def)
  have b: "u1 mod 64 = b" using r1 mod_range(1) [of 2 64 u1] by (simp add: b_def)
  have e: "u2 mod 64 = e" using r2 mod_range(1) [of 2 64 u2] by (simp add: e_def)
  have f: "u3 mod 64 = f" using r3 mod_range(1) [of 2 64 u3] by (simp add: f_def)
  have u: "u0 = 240 + a" "u1 = 128 + b" "u2 = 128 + e" "u3 = 128 + f"
    using assms(1,2) r1 r2 r3 by (simp_all add: a_def b_def e_def f_def)
  have ra: "a \<le> 4" and rb: "b < 64" and re: "e < 64" and rf: "f < 64"
    using assms(1,2) r1 r2 r3 by (simp_all add: a_def b_def e_def f_def)
  have lo': "a = 0 \<Longrightarrow> 16 \<le> b" and hi': "a = 4 \<Longrightarrow> b \<le> 15"
    using lo hi u by simp_all
  let ?c = "a * 262144 + b * 4096 + e * 64 + f"
  have c1: "65536 \<le> ?c"
    using lo' by (cases "a = 0") simp_all
  have c2: "?c \<le> 1114111"
  proof (cases "a = 4")
    case True
    then show ?thesis using hi' re rf by simp
  next
    case False
    then have "a \<le> 3" using ra by simp
    then show ?thesis using rb re rf by simp
  qed
  have c3: "?c < 2 ^ 32"
    using c2 by simp
  show ?thesis
    unfolding a b e f
    by (subst AppendRune_nat [OF c3])
      (use c1 c2 digits4 [OF rb re rf, of a] in \<open>simp add: u\<close>)
qed

lemma fixUtf_id: "fixUtf r = r"
  by (simp add: fixUtf_def RuneError_def)

lemma AppendRune_DecodeRuneInString:
  assumes "s \<noteq> []" and "DecodeRuneInString s = (c, w)" and "\<not> (c = RuneError \<and> w = 1)"
  shows "AppendRune c = take w s \<and> 0 \<le> c"
  using assms(1)
proof (cases rule: Decode_cases)
  case ascii
  then have c: "c = int (unat (s ! 0))" and w: "w = 1" using assms(2) by simp_all
  have lt: "unat (s ! 0) < 2 ^ 32" using ascii(1) by simp
  have "AppendRune c = take w s"
    unfolding c w by (subst AppendRune_nat [OF lt]) (use ascii(1) assms(1) in \<open>simp add: take1\<close>)
  then show ?thesis by (simp add: c)
next
  case invalid
  with assms(2,3) show ?thesis by simp
next
  case two
  then have c: "c = int (unat (s ! 0) mod 32 * 64 + unat (s ! 1) mod 64)" and w: "w = 2"
    using assms(2) by simp_all
  have "AppendRune c = take w s"
    unfolding c w using AppendRune_two [OF two(1,2,4)] two(3) by (simp add: take2)
  then show ?thesis by (simp add: c)
next
  case three
  then have c: "c = int (unat (s ! 0) mod 16 * 4096 + unat (s ! 1) mod 64 * 64
      + unat (s ! 2) mod 64)" and w: "w = 3"
    using assms(2) by simp_all
  have "AppendRune c = take w s"
    unfolding c w using AppendRune_three [OF three(1,2,4,5,6)] three(3) by (simp add: take3)
  then show ?thesis by (simp add: c)
next
  case four
  then have c: "c = int (unat (s ! 0) mod 8 * 262144 + unat (s ! 1) mod 64 * 4096
      + unat (s ! 2) mod 64 * 64 + unat (s ! 3) mod 64)" and w: "w = 4"
    using assms(2) by simp_all
  have "AppendRune c = take w s"
    unfolding c w using AppendRune_four [OF four(1,2,4,5,6,7)] four(3) by (simp add: take4)
  then show ?thesis by (simp add: c)
qed

lemma AppendRune_RuneError: "AppendRune RuneError = [0xEF, 0xBF, 0xBD]"
  by (simp add: AppendRune_def RuneError_def)

lemma DecodeRuneInString_prefix:
  assumes "s \<noteq> []" and "DecodeRuneInString s = (c, w)" and "\<not> (c = RuneError \<and> w = 1)"
  shows "DecodeRuneInString (take w s @ rest) = (c, w)"
  using assms(1)
proof (cases rule: Decode_cases)
  case ascii
  then have c: "c = int (unat (s ! 0))" and w: "w = 1" using assms(2) by simp_all
  have n: "(take 1 s @ rest) ! 0 = s ! 0" "take 1 s @ rest \<noteq> []"
    using assms(1) by (simp_all add: take1)
  show ?thesis
    unfolding c w using Decode_ascii [OF n(2)] ascii(1) by (simp only: n(1))
next
  case invalid
  with assms(2,3) show ?thesis by simp
next
  case two
  then have c: "c = int (unat (s ! 0) mod 32 * 64 + unat (s ! 1) mod 64)" and w: "w = 2"
    using assms(2) by simp_all
  let ?s = "take 2 s @ rest"
  have n: "?s ! 0 = s ! 0" "?s ! 1 = s ! 1" "?s \<noteq> []" "2 \<le> length ?s"
    using two(3) by (simp_all add: take2)
  show ?thesis
    unfolding c w using Decode_two [OF n(3)] two(1,2,4) n(4) by (simp only: n(1,2) if_True simp_thms)
next
  case three
  then have c: "c = int (unat (s ! 0) mod 16 * 4096 + unat (s ! 1) mod 64 * 64
      + unat (s ! 2) mod 64)" and w: "w = 3"
    using assms(2) by simp_all
  let ?s = "take 3 s @ rest"
  have n: "?s ! 0 = s ! 0" "?s ! 1 = s ! 1" "?s ! 2 = s ! 2" "?s \<noteq> []" "3 \<le> length ?s"
    using three(3) by (simp_all add: take3)
  show ?thesis
    unfolding c w using Decode_three [OF n(4)] three(1,2,4,5,6) n(5)
    by (simp only: n(1,2,3) if_True simp_thms)
next
  case four
  then have c: "c = int (unat (s ! 0) mod 8 * 262144 + unat (s ! 1) mod 64 * 4096
      + unat (s ! 2) mod 64 * 64 + unat (s ! 3) mod 64)" and w: "w = 4"
    using assms(2) by simp_all
  let ?s = "take 4 s @ rest"
  have n: "?s ! 0 = s ! 0" "?s ! 1 = s ! 1" "?s ! 2 = s ! 2" "?s ! 3 = s ! 3" "?s \<noteq> []"
    "4 \<le> length ?s"
    using four(3) by (simp_all add: take4)
  show ?thesis
    unfolding c w using Decode_four [OF n(5)] four(1,2,4,5,6,7) n(6)
    by (simp only: n(1,2,3,4) if_True simp_thms)
qed

lemma DecodeRuneInString_replacement:
  "DecodeRuneInString ([0xEF, 0xBF, 0xBD] @ rest) = (RuneError, 3)"
  using Decode_three [of "[0xEF, 0xBF, 0xBD] @ rest"]
  by (simp add: accept3_def cont_def RuneError_def)

lemma Nil_simps [simp]:
  "strings_Map_loop mapping changed [] = []" "replaceInvalid [] = []" "ValidString []"
  by (simp_all add: strings_Map_loop.simps [of _ _ "[]"] replaceInvalid.simps [of "[]"]
      ValidString.simps [of "[]"])

lemma strings_Map_loop_step:
  "s \<noteq> [] \<Longrightarrow> DecodeRuneInString s = (c, w) \<Longrightarrow>
   strings_Map_loop mapping changed s =
     (if \<not> changed \<and> mapping c = c \<and> (c \<noteq> RuneError \<or> w \<noteq> 1)
      then take w s @ strings_Map_loop mapping False (drop w s)
      else (if mapping c \<ge> 0 then AppendRune (mapping c) else [])
             @ strings_Map_loop mapping True (drop w s))"
  by (subst strings_Map_loop.simps) (simp add: Let_def)

lemma replaceInvalid_step:
  "s \<noteq> [] \<Longrightarrow> DecodeRuneInString s = (c, w) \<Longrightarrow>
   replaceInvalid s =
     (if c = RuneError \<and> w = 1 then [0xEF, 0xBF, 0xBD] else take w s)
       @ replaceInvalid (drop w s)"
  by (subst replaceInvalid.simps) simp

lemma ValidString_step:
  "s \<noteq> [] \<Longrightarrow> DecodeRuneInString s = (c, w) \<Longrightarrow>
   ValidString s = (\<not> (c = RuneError \<and> w = 1) \<and> ValidString (drop w s))"
  by (subst ValidString.simps) auto

lemma strings_Map_loop_fixUtf: "strings_Map_loop fixUtf changed s = replaceInvalid s"
proof (induction s arbitrary: changed rule: length_induct)
  case (1 s)
  show ?case
  proof (cases "s = []")
    case True
    then show ?thesis by simp
  next
    case False
    obtain c w where d: "DecodeRuneInString s = (c, w)"
      by (cases "DecodeRuneInString s")
    have less: "length (drop w s) < length s"
      by (rule drop_width_less [OF False d])
    have IH: "strings_Map_loop fixUtf b (drop w s) = replaceInvalid (drop w s)" for b
      using 1 less by blast
    have fx: "fixUtf c = c"
      by (rule fixUtf_id)
    have enc: "(if 0 \<le> c then AppendRune c else []) =
        (if c = RuneError \<and> w = 1 then [0xEF, 0xBF, 0xBD] else take w s)"
    proof (cases "c = RuneError \<and> w = 1")
      case True
      then show ?thesis by (simp add: AppendRune_RuneError) (simp add: RuneError_def)
    next
      case valid: False
      from AppendRune_DecodeRuneInString [OF False d valid] valid show ?thesis by auto
    qed
    have "strings_Map_loop fixUtf changed s =
        (if c = RuneError \<and> w = 1 then [0xEF, 0xBF, 0xBD] else take w s)
          @ replaceInvalid (drop w s)"
      unfolding strings_Map_loop_step [OF False d] IH fx using enc by auto
    then show ?thesis
      by (simp only: replaceInvalid_step [OF False d])
  qed
qed

lemma ValidString_replaceInvalid: "ValidString (replaceInvalid s)"
proof (induction s rule: length_induct)
  case (1 s)
  show ?case
  proof (cases "s = []")
    case True
    then show ?thesis by simp
  next
    case False
    obtain c w where d: "DecodeRuneInString s = (c, w)"
      by (cases "DecodeRuneInString s")
    have less: "length (drop w s) < length s"
      by (rule drop_width_less [OF False d])
    have IH: "ValidString (replaceInvalid (drop w s))"
      using 1 less by blast
    have wl: "w \<le> length s" "1 \<le> w"
      using DecodeRuneInString_width [OF False] d by simp_all
    let ?rest = "replaceInvalid (drop w s)"
    show ?thesis
    proof (cases "c = RuneError \<and> w = 1")
      case True
      have r: "replaceInvalid s = [0xEF, 0xBF, 0xBD] @ ?rest"
        using True by (simp add: replaceInvalid_step [OF False d])
      have "ValidString ([0xEF, 0xBF, 0xBD] @ ?rest)"
        using IH ValidString_step [OF _ DecodeRuneInString_replacement [of ?rest]]
        by simp
      then show ?thesis by (simp only: r)
    next
      case valid: False
      have r: "replaceInvalid s = take w s @ ?rest"
        using valid by (auto simp: replaceInvalid_step [OF False d])
      have ne: "take w s @ ?rest \<noteq> []"
        using False wl by (cases s) auto
      have "ValidString (take w s @ ?rest)"
        using IH valid wl
          ValidString_step [OF ne DecodeRuneInString_prefix [OF False d valid, of ?rest]]
        by simp
      then show ?thesis by (simp only: r)
    qed
  qed
qed

lemma replaceInvalid_ValidString: "ValidString s \<Longrightarrow> replaceInvalid s = s"
proof (induction s rule: length_induct)
  case (1 s)
  show ?case
  proof (cases "s = []")
    case True
    then show ?thesis by simp
  next
    case False
    obtain c w where d: "DecodeRuneInString s = (c, w)"
      by (cases "DecodeRuneInString s")
    have less: "length (drop w s) < length s"
      by (rule drop_width_less [OF False d])
    from "1.prems" have valid: "\<not> (c = RuneError \<and> w = 1)"
      and rest: "ValidString (drop w s)"
      using ValidString_step [OF False d] by blast+
    have "replaceInvalid (drop w s) = drop w s"
      using 1 less rest by blast
    then show ?thesis
      using valid by (auto simp: replaceInvalid_step [OF False d])
  qed
qed

text \<open>
  Claim C7, as amended. Whenever the length-prefixed blob itself can be read, whatever
  its bytes: \<^verbatim>\<open>ReadString\<close> succeeds and returns the bytes unchanged (it does not
  validate them, and no error for ill-formed UTF-8 exists); \<^verbatim>\<open>SafeReadUTF8String\<close>
  succeeds and returns the bytes with every byte that begins no well-formed sequence
  replaced by the encoding of U+FFFD. The result of the lenient reader is well-formed
  UTF-8, and it is the blob itself when the blob is well-formed.
\<close>

theorem string_readers:
  assumes "ReadByteArray d = Ret bs None d'"
  shows "ReadString d = Ret bs None d' \<and>
    SafeReadUTF8String d = Ret (replaceInvalid bs) None d' \<and>
    ValidString (replaceInvalid bs) \<and>
    (ValidString bs \<longrightarrow> replaceInvalid bs = bs)"
  using assms
  by (simp add: ReadString_def SafeReadUTF8String_def strings_Map_def strings_Map_loop_fixUtf
      ValidString_replaceInvalid replaceInvalid_ValidString)

theorem string_readers_witness:
  "ReadByteArray (NewDecoder [3, 0x61, 0xFF, 0x62]) =
     Ret [0x61, 0xFF, 0x62] None \<lparr>data = [3, 0x61, 0xFF, 0x62], pos = 4\<rparr> \<and>
   ReadString (NewDecoder [3, 0x61, 0xFF, 0x62]) =
     Ret [0x61, 0xFF, 0x62] None \<lparr>data = [3, 0x61, 0xFF, 0x62], pos = 4\<rparr> \<and>
   SafeReadUTF8String (NewDecoder [3, 0x61, 0xFF, 0x62]) =
     Ret [0x61, 0xEF, 0xBF, 0xBD, 0x62] None \<lparr>data = [3, 0x61, 0xFF, 0x62], pos = 4\<rparr>"
proof -
  have a: "ReadByteArray (NewDecoder [3, 0x61, 0xFF, 0x62]) =
     Ret [0x61, 0xFF, 0x62] None \<lparr>data = [3, 0x61, 0xFF, 0x62], pos = 4\<rparr>"
    by code_simp
  have r: "replaceInvalid [0x61, 0xFF, 0x62] = [0x61, 0xEF, 0xBF, 0xBD, 0x62]"
    by code_simp
  from string_readers [OF a] a r show ?thesis
    by simp
qed

text \<open>
  The claim as stated fails: the blob \<open>01 FF\<close> holds the byte \<open>FF\<close>, which is not
  well-formed UTF-8, and \<^verbatim>\<open>ReadString\<close> returns it without an error.
\<close>

theorem ReadString_counterexample:
  "ReadString (NewDecoder [1, 0xFF]) = Ret [0xFF] None \<lparr>data = [1, 0xFF], pos = 2\<rparr> \<and>
   \<not> ValidString [0xFF]"
proof -
  have "\<not> ValidString [0xFF]"
    by (simp add: ValidString.simps [of "[0xFF]"] Decode_bad_lead)
  moreover have
    "ReadString (NewDecoder [1, 0xFF]) = Ret [0xFF] None \<lparr>data = [1, 0xFF], pos = 2\<rparr>"
    by code_simp
  ultimately show ?thesis by simp
qed


section \<open>Self-decoding targets\<close>

text \<open>
  Claim C2 says that a target whose type implements \<^verbatim>\<open>UnmarshalerBinary\<close> is handed to
  its own \<^verbatim>\<open>UnmarshalBinary\<close>. The code does not get that far: \<^verbatim>\<open>indirect\<close> returns the
  unmarshaler together with \<^verbatim>\<open>reflect.Value{}\<close>, and \<^verbatim>\<open>value\<close> calls \<^verbatim>\<open>rv.Type()\<close> on that
  zero Value (line 100) before it looks at the unmarshaler (line 160). For every such
  target, every option and every decoder the decode panics.
\<close>

theorem unmarshaler_target_panics:
  "decodeWithOption (Unmarshaler u t) v opt d = Panicked PanicTypeOfZeroValue"
  by (simp add: decode_value.simps Type_of_def)

section \<open>Negative size sources\<close>

text \<open>
  Claim C3 says that a negative value of a signed size source is recorded as zero.
  \<^verbatim>\<open>sizeof\<close> clamps in the branch of the unsigned kinds only; for \<^verbatim>\<open>int8\<close> holding \<open>-1\<close> it
  returns \<open>-1\<close>, and the record \<^verbatim>\<open>[Count int8 (size source of "Items"), Items []uint8]\<close>
  decoded from the byte \<open>FF\<close> panics in \<^verbatim>\<open>reflect.MakeSlice\<close>.
\<close>

theorem sizeof_signed_negative:
  "sizeof Int8 (VInt (- 1)) = Inr (- 1) \<and>
   Decode
     (Struct [StructField ''Count''
                \<lparr>Skip = False, BinaryExtension = False, Optional = False, Sizeof = ''Items''\<rparr>
                True Int8,
              StructField ''Items''
                \<lparr>Skip = False, BinaryExtension = False, Optional = False, Sizeof = []\<rparr>
                True (Slice Uint8)])
     (VStruct [VInt 0, VNilSlice]) (NewDecoder [0xFF]) =
   Panicked PanicMakeSliceNegativeLen"
  by code_simp

text \<open>The unsigned kinds: the recorded count is never negative.\<close>

theorem sizeof_unsigned_clamped:
  "t \<in> {Uint8, Uint16, Uint32, Uint64, GoUint} \<Longrightarrow> sizeof t (VUint u) = Inr n \<Longrightarrow> 0 \<le> n"
  by (auto simp: sizeof_uint_def Let_def split: if_splits)

theorem sizeof_unsigned_clamped_witness:
  "Uint64 \<in> {Uint8, Uint16, Uint32, Uint64, GoUint} \<and>
   sizeof Uint64 (VUint (2 ^ 64 - 1)) = Inr 0 \<and> (0 :: int) \<le> 0"
proof -
  have a: "Uint64 \<in> {Uint8, Uint16, Uint32, Uint64, GoUint}"
    by simp
  have b: "sizeof Uint64 (VUint (2 ^ 64 - 1)) = Inr 0"
    by (simp add: sizeof_uint_def go_int_def)
  from sizeof_unsigned_clamped [OF a b] a b show ?thesis
    by simp
qed

section \<open>Slice lengths the allocator refuses\<close>

text \<open>
  The layout of \<^verbatim>\<open>struct { A uint8; B uint32; C uint8 }\<close> is 12 bytes aligned to 4. A slice
  of bytes with the length prefix \<open>2^49\<close> is more than \<^verbatim>\<open>newarray\<close> admits, and the decode
  panics before it reads an element; with the prefix 3 and no byte left it returns the
  underrun of the first element.
\<close>

lemma layout_struct_example:
  "layout (Struct [StructField ''A'' tg True Uint8, StructField ''B'' tg True Uint32,
                   StructField ''C'' tg True Uint8]) = (12, 4)"
  by (simp add: CalcStructSize_def RoundUp_def)

lemma MakeSlice_allocation_size:
  "Decode (Slice Uint8) VNilSlice
     (NewDecoder [0x80, 0x80, 0x80, 0x80, 0x80, 0x80, 0x80, 0x01]) =
   Panicked PanicAllocationSize \<and>
   Decode (Slice Uint8) VNilSlice (NewDecoder [0x03]) =
   Ret (VSlice [VUint 0, VUint 0, VUint 0]) (Some (ErrRequired [] 1 0))
     \<lparr>data = [0x03], pos = 1\<rparr>"
  by code_simp

section \<open>A blob longer than the buffer\<close>

text \<open>
  Claim C10 says that \<^verbatim>\<open>ReadByteArray\<close> returns an error whenever fewer bytes remain than
  the length prefix announces. For the prefix \<open>FF FF FF FF FF FF FF FF FF 01\<close>, the
  length \<open>2^64 - 1\<close>, the conversion \<^verbatim>\<open>int(l)\<close> is \<open>-1\<close>, the length check passes and the
  slice expression \<^verbatim>\<open>d.data[10:9]\<close> panics.
\<close>

theorem ReadByteArray_huge_length:
  "ReadByteArray (NewDecoder [0xFF, 0xFF, 0xFF, 0xFF, 0xFF, 0xFF, 0xFF, 0xFF, 0xFF, 0x01]) =
   Panicked (PanicSliceBounds 10 9)"
  by code_simp

lemma go_int_id: "- (2 ^ 63) \<le> n \<Longrightarrow> n < 2 ^ 63 \<Longrightarrow> go_int n = n"
  unfolding go_int_def by (simp add: sint_sbintrunc' signed_take_bit_int_eq_self)

text \<open>
  Where the end of the blob fits Go's \<^verbatim>\<open>int\<close>: a well-formed length prefix followed by
  fewer bytes than it announces makes \<^verbatim>\<open>ReadByteArray\<close> return the error, and the
  position stays behind the prefix; it is not restored.
\<close>

theorem ReadByteArray_short_blob:
  assumes "ReadUvarint64 d = Ret l None d1"
    and "int (pos d1) + uint l < 2 ^ 63"
    and "remaining d1 < uint l"
  shows "ReadByteArray d = Ret [] (Some (ErrByteArray l (uint l - remaining d1))) d1 \<and>
    pos d < pos d1"
proof -
  have l: "uint l < 2 ^ 63" using assms(2) by simp
  have "- (2 ^ 63) \<le> uint l"
    by (rule order_trans [of _ 0]) simp_all
  then have sl: "sint l = uint l"
    using l by (simp add: sint_uint signed_take_bit_int_eq_self)
  have nn: "0 \<le> int (pos d1) + uint l"
    by simp
  have hi: "go_int (int (pos d1) + sint l) = int (pos d1) + uint l"
    unfolding sl using assms(2) nn by (intro go_int_id) linarith+
  have len: "int (length (data d1)) < int (pos d1) + uint l"
    using assms(3) by (simp add: remaining_def)
  have miss: "go_int (int (pos d1) + uint l - int (length (data d1))) = uint l - remaining d1"
  proof -
    have "0 \<le> int (length (data d1))" by simp
    then have "go_int (int (pos d1) + uint l - int (length (data d1))) =
        int (pos d1) + uint l - int (length (data d1))"
      using len assms(2) by (intro go_int_id) linarith+
    then show ?thesis by (simp add: remaining_def)
  qed
  have posd: "pos d < pos d1"
    using assms(1) by (auto simp: ReadUvarint64_def split: prod.splits if_splits)
  show ?thesis
    using assms(1) len posd by (simp add: ReadByteArray_def hi miss Let_def)
qed

theorem ReadByteArray_short_blob_witness:
  "ReadUvarint64 (NewDecoder [5, 1, 2]) = Ret 5 None \<lparr>data = [5, 1, 2], pos = 1\<rparr> \<and>
   ReadByteArray (NewDecoder [5, 1, 2]) =
     Ret [] (Some (ErrByteArray 5 3)) \<lparr>data = [5, 1, 2], pos = 1\<rparr>"
proof -
  have a: "ReadUvarint64 (NewDecoder [5, 1, 2]) = Ret 5 None \<lparr>data = [5, 1, 2], pos = 1\<rparr>"
    by code_simp
  have b: "int (pos \<lparr>data = [5, 1, 2], pos = 1\<rparr>) + uint (5 :: 64 word) < 2 ^ 63"
    by simp
  have c: "remaining \<lparr>data = [5 :: byte, 1, 2], pos = 1\<rparr> < uint (5 :: 64 word)"
    by (simp add: remaining_def)
  from ReadByteArray_short_blob [OF a b c] a show ?thesis
    by (simp add: remaining_def)
qed

end
